theory Spec2Isabelle
  imports Main
begin

section \<open>Common vocabulary\<close>

text \<open>
  The library is a set of C++ class templates over an element type \<open>T\<close>.  The model fixes
  the following conventions.
  \<^item> A pointer is the byte address it holds, a natural number; \<open>nullptr\<close> is address \<open>0\<close>.
  \<^item> A \<open>std::size_t\<close> is a natural number below \<open>2 ^ 64\<close>; where the source does
    arithmetic on one, the wrap-around is written out with \<open>size_t_mod\<close>.
  \<^item> A \<open>std::function<void(T*)>\<close> is a \<open>deleter option\<close>: \<open>None\<close> is the empty function
    object, \<open>Some d\<close> a callable.  The callables are defunctionalised: the two lambdas
    written in the sources and an arbitrary caller-supplied one, told apart by a tag.
  \<^item> Every effect the code has on the outside is appended to a trace of events, so that
    "is invoked", "exactly once" and "before" are statements about that trace.
  \<^item> A data member \<open>x_\<close> of the source is the record field \<open>m_x\<close> (an Isabelle name
    cannot end in an underscore); the members of \<open>released_buffer\<close> and of the control
    block, which share their names, carry the prefixes \<open>rb_\<close> and \<open>cb_\<close>.
\<close>

definition size_t_mod :: nat where
  "size_t_mod = 2 ^ 64"

datatype MemoryLocation = Host | HostPinned | Device | Unified

datatype deleter =
    ArrayDelete        \<comment> \<open>\<open>[](T *p) { delete[] p; }\<close> of the self-allocating constructor\<close>
  | PoolReturn nat     \<comment> \<open>\<open>[this](T *p) { this->release_block(p); }\<close>, \<open>this\<close> the pool's address\<close>
  | UserDeleter nat    \<comment> \<open>a callable handed in by the caller\<close>

datatype event =
    Invoke deleter nat         \<comment> \<open>the deleter was called with this pointer\<close>
  | FetchAdd nat               \<comment> \<open>\<open>ref.fetch_add(1)\<close> on the control block at this address\<close>
  | FetchSub nat               \<comment> \<open>\<open>ref.fetch_sub(1)\<close>\<close>
  | CompareExchange nat bool   \<comment> \<open>\<open>ref.compare_exchange_strong(1, 0)\<close> and its outcome\<close>
  | New nat                    \<comment> \<open>\<open>new control_block\<close> at this address\<close>
  | Delete nat                 \<comment> \<open>\<open>delete ctrl_\<close>\<close>

datatype error =
    invalid_argument   \<comment> \<open>\<open>std::invalid_argument\<close>\<close>
  | bad_alloc          \<comment> \<open>\<open>std::bad_alloc\<close>\<close>
  | length_error       \<comment> \<open>\<open>std::length_error\<close>\<close>
  | runtime_error      \<comment> \<open>\<open>std::runtime_error\<close>: the pool is out of buffers\<close>
  | rethrown           \<comment> \<open>an exception of an element constructor, passed on by \<open>throw;\<close>\<close>
  | terminate          \<comment> \<open>an exception left a \<open>noexcept\<close> function\<close>

section \<open>The data model\<close>

record buffer_base =
  m_data :: nat
  m_count :: nat
  m_location :: MemoryLocation

record unique_buffer = buffer_base +
  m_deleter :: "deleter option"

record released_buffer =
  rb_ptr :: nat
  rb_count :: nat
  rb_deleter :: "deleter option"
  rb_location :: MemoryLocation

record control_block =
  cb_ref :: nat
  cb_ptr :: nat
  cb_size :: nat
  cb_deleter :: "deleter option"
  cb_location :: MemoryLocation

record shared_buffer =
  m_ctrl :: nat

text \<open>
  \<open>MemPool<T, Alignment>\<close>: the two template parameters are kept in the record as
  \<open>sizeof_T\<close> and \<open>Alignment\<close>. \<open>m_stride\<close> counts elements; \<open>m_pool_data\<close> (the
  member \<open>data_\<close>) and the entries of \<open>m_free_blocks\<close> are byte addresses; the back of
  the vector is the end of the list.
\<close>

record MemPool =
  sizeof_T :: nat
  Alignment :: nat
  m_block_size :: nat
  m_stride :: nat
  m_block_count :: nat
  m_pool_location :: MemoryLocation
  m_pool_data :: nat
  m_free_blocks :: "nat list"

text \<open>
  The part of the program state that the handles act on: the trace, the pools and the
  control blocks by address, the handle objects by address (for the operations that
  compare \<open>this\<close> with \<open>&other\<close>), and a flag that is raised when an operation
  dereferences something that no longer exists, which is undefined behaviour in C++.
\<close>

record world =
  trace :: "event list"
  pools :: "nat \<rightharpoonup> MemPool"
  ctrls :: "nat \<rightharpoonup> control_block"
  ubufs :: "nat \<Rightarrow> unique_buffer"
  sbufs :: "nat \<rightharpoonup> shared_buffer"
  ub :: bool

section \<open>buffer_base\<close>



definition data :: "'a buffer_base_scheme \<Rightarrow> nat" where
  "data b = m_data b"

definition size_of :: "'a buffer_base_scheme \<Rightarrow> nat" where
  "size_of b = m_count b"

definition empty_of :: "'a buffer_base_scheme \<Rightarrow> bool" where
  "empty_of b = (m_count b = 0)"

definition location :: "'a buffer_base_scheme \<Rightarrow> MemoryLocation" where
  "location b = m_location b"


section \<open>The pool's side of a deleter\<close>

definition release_block :: "nat \<Rightarrow> MemPool \<Rightarrow> MemPool" where
  "release_block p pool = pool\<lparr>m_free_blocks := m_free_blocks pool @ [p]\<rparr>"

text \<open>
  Calling a deleter. The call is recorded; the pool's lambda also pushes the pointer
  back onto the free list of the pool it captured, and when that pool is gone the call
  is undefined behaviour. An exception leaving a deleter is swallowed by the
  \<open>catch (...)\<close> around every call site, so a call has no second outcome.
\<close>

definition invoke :: "deleter \<Rightarrow> nat \<Rightarrow> world \<Rightarrow> world" where
  "invoke d p w =
     (let w' = w\<lparr>trace := trace w @ [Invoke d p]\<rparr>
      in case d of
           PoolReturn a \<Rightarrow>
             (case pools w a of
                None \<Rightarrow> w'\<lparr>ub := True\<rparr>
              | Some pool \<Rightarrow> w'\<lparr>pools := (pools w)(a \<mapsto> release_block p pool)\<rparr>)
         | _ \<Rightarrow> w')"

section \<open>unique_buffer\<close>

definition unique_buffer_default :: unique_buffer where
  "unique_buffer_default = \<lparr>m_data = 0, m_count = 0, m_location = Host, m_deleter = None\<rparr>"


text \<open>\<open>unique_buffer(pointer ptr, size_type count, deleter_type deleter, MemoryLocation loc)\<close>\<close>

definition unique_buffer_ctor :: "nat \<Rightarrow> nat \<Rightarrow> deleter option \<Rightarrow> MemoryLocation \<Rightarrow> unique_buffer" where
  "unique_buffer_ctor p n d loc = \<lparr>m_data = p, m_count = n, m_location = loc, m_deleter = d\<rparr>"

text \<open>\<open>explicit unique_buffer(released_buffer<T> rb)\<close>\<close>

definition unique_buffer_from_released :: "released_buffer \<Rightarrow> unique_buffer" where
  "unique_buffer_from_released rb =
     \<lparr>m_data = rb_ptr rb, m_count = rb_count rb, m_location = rb_location rb, m_deleter = rb_deleter rb\<rparr>"

definition get :: "unique_buffer \<Rightarrow> nat" where
  "get u = m_data u"

definition unique_release :: "unique_buffer \<Rightarrow> released_buffer \<times> unique_buffer" where
  "unique_release u =
     (\<lparr>rb_ptr = m_data u, rb_count = m_count u, rb_deleter = m_deleter u, rb_location = m_location u\<rparr>,
      u\<lparr>m_data := 0, m_count := 0, m_location := Host, m_deleter := None\<rparr>)"

definition unique_reset :: "unique_buffer \<Rightarrow> world \<Rightarrow> unique_buffer \<times> world" where
  "unique_reset u w =
     (if m_data u \<noteq> 0
      then (u\<lparr>m_data := 0, m_count := 0, m_location := Host, m_deleter := None\<rparr>,
            case m_deleter u of None \<Rightarrow> w | Some d \<Rightarrow> invoke d (m_data u) w)
      else (u\<lparr>m_deleter := None\<rparr>, w))"

text \<open>The destructor is \<open>reset()\<close>; the object is gone afterwards.\<close>

definition unique_dtor :: "unique_buffer \<Rightarrow> world \<Rightarrow> world" where
  "unique_dtor u w = snd (unique_reset u w)"


definition unique_eq_nullptr :: "unique_buffer \<Rightarrow> bool" where
  "unique_eq_nullptr u = (m_data u = 0)"

definition unique_bool :: "unique_buffer \<Rightarrow> bool" where
  "unique_bool u = (m_data u \<noteq> 0)"


definition get_deleter :: "unique_buffer \<Rightarrow> deleter option" where
  "get_deleter u = m_deleter u"

text \<open>
  \<open>steal_from\<close> writes the four members of \<open>*this\<close> from \<open>other\<close> and then clears
  \<open>other\<close>. It is only ever called with \<open>this\<close> and \<open>other\<close> distinct objects (a
  new object in the move constructor, the guarded branch in the assignment), so it is a
  function from the old \<open>this\<close> and \<open>other\<close> to the new pair.
\<close>

definition steal_from :: "unique_buffer \<Rightarrow> unique_buffer \<Rightarrow> unique_buffer \<times> unique_buffer" where
  "steal_from this other =
     (this\<lparr>m_data := m_data other, m_count := m_count other, m_location := m_location other,
            m_deleter := m_deleter other\<rparr>,
      other\<lparr>m_data := 0, m_count := 0, m_location := Host, m_deleter := None\<rparr>)"

text \<open>\<open>unique_buffer(unique_buffer &&other)\<close>: the members start from their defaults.\<close>

definition unique_move_ctor :: "unique_buffer \<Rightarrow> unique_buffer \<times> unique_buffer" where
  "unique_move_ctor other = steal_from unique_buffer_default other"

text \<open>
  \<open>operator=(unique_buffer &&other)\<close> on the objects at addresses \<open>this\<close> and \<open>other\<close>.
\<close>

definition unique_move_assign :: "nat \<Rightarrow> nat \<Rightarrow> world \<Rightarrow> world" where
  "unique_move_assign this other w =
     (if this \<noteq> other
      then (let (t1, w1) = unique_reset (ubufs w this) w;
                (t2, o2) = steal_from t1 (ubufs w1 other)
            in w1\<lparr>ubufs := (ubufs w1)(this := t2, other := o2)\<rparr>)
      else w)"

section \<open>shared_buffer\<close>

subsection \<open>The atomic counter\<close>

text \<open>
  The three operations the source uses on \<open>std::atomic<std::size_t> ref\<close>, on the
  control block at address \<open>c\<close>. Each is one indivisible step on the store; the memory
  orders have no meaning in a sequential model. \<open>fetch_add\<close> and \<open>fetch_sub\<close> return
  the previous value.
\<close>

definition fetch_add :: "nat \<Rightarrow> world \<Rightarrow> nat \<times> world" where
  "fetch_add c w =
     (case ctrls w c of
        None \<Rightarrow> (0, w\<lparr>ub := True\<rparr>)
      | Some cb \<Rightarrow>
          (cb_ref cb,
           w\<lparr>ctrls := (ctrls w)(c \<mapsto> cb\<lparr>cb_ref := (cb_ref cb + 1) mod size_t_mod\<rparr>),
             trace := trace w @ [FetchAdd c]\<rparr>))"

definition fetch_sub :: "nat \<Rightarrow> world \<Rightarrow> nat \<times> world" where
  "fetch_sub c w =
     (case ctrls w c of
        None \<Rightarrow> (0, w\<lparr>ub := True\<rparr>)
      | Some cb \<Rightarrow>
          (cb_ref cb,
           w\<lparr>ctrls := (ctrls w)(c \<mapsto> cb\<lparr>cb_ref := (cb_ref cb + size_t_mod - 1) mod size_t_mod\<rparr>),
             trace := trace w @ [FetchSub c]\<rparr>))"

definition compare_exchange_strong :: "nat \<Rightarrow> nat \<Rightarrow> nat \<Rightarrow> world \<Rightarrow> bool \<times> world" where
  "compare_exchange_strong c expected desired w =
     (case ctrls w c of
        None \<Rightarrow> (False, w\<lparr>ub := True\<rparr>)
      | Some cb \<Rightarrow>
          if cb_ref cb = expected
          then (True, w\<lparr>ctrls := (ctrls w)(c \<mapsto> cb\<lparr>cb_ref := desired\<rparr>),
                        trace := trace w @ [CompareExchange c True]\<rparr>)
          else (False, w\<lparr>trace := trace w @ [CompareExchange c False]\<rparr>))"

subsection \<open>Construction\<close>

definition shared_buffer_default :: shared_buffer where
  "shared_buffer_default = \<lparr>m_ctrl = 0\<rparr>"

text \<open>
  \<open>shared_buffer(pointer ptr, size_type size, deleter_type deleter, MemoryLocation loc)\<close>.
  The fifth argument is the answer of \<open>new control_block\<close>: \<open>None\<close> when it throws,
  otherwise the address of the new block.
\<close>

definition shared_buffer_ctor ::
  "nat \<Rightarrow> nat \<Rightarrow> deleter option \<Rightarrow> MemoryLocation \<Rightarrow> nat option \<Rightarrow> world
     \<Rightarrow> (error + shared_buffer) \<times> world" where
  "shared_buffer_ctor p n d loc new_answer w =
     (if p = 0 \<or> n = 0 then (Inr \<lparr>m_ctrl = 0\<rparr>, w)
      else case new_answer of
             None \<Rightarrow> (Inl bad_alloc, w)
           | Some a \<Rightarrow>
               (Inr \<lparr>m_ctrl = a\<rparr>,
                w\<lparr>ctrls := (ctrls w)(a \<mapsto> \<lparr>cb_ref = 1, cb_ptr = p, cb_size = n,
                                              cb_deleter = d, cb_location = loc\<rparr>),
                  trace := trace w @ [New a]\<rparr>))"

text \<open>
  \<open>explicit shared_buffer(released_buffer<T> rb) noexcept\<close> delegates to the constructor
  above; being \<open>noexcept\<close>, it turns a failure of \<open>new\<close> into \<open>std::terminate\<close>.
\<close>

definition shared_buffer_from_released ::
  "released_buffer \<Rightarrow> nat option \<Rightarrow> world \<Rightarrow> (error + shared_buffer) \<times> world" where
  "shared_buffer_from_released rb new_answer w =
     (case shared_buffer_ctor (rb_ptr rb) (rb_count rb) (rb_deleter rb) (rb_location rb) new_answer w of
        (Inl e, w') \<Rightarrow> (Inl terminate, w')
      | (Inr s, w') \<Rightarrow> (Inr s, w'))"

text \<open>\<open>shared_buffer(unique_buffer<T> &&u_b)\<close>; also returns what is left of \<open>u_b\<close>.\<close>

definition shared_buffer_from_unique ::
  "unique_buffer \<Rightarrow> nat option \<Rightarrow> world \<Rightarrow> (error + shared_buffer) \<times> unique_buffer \<times> world" where
  "shared_buffer_from_unique u_b new_answer w =
     (let (rb, u') = unique_release u_b;
          (r, w') = shared_buffer_from_released rb new_answer w
      in (r, u', w'))"

definition shared_copy_ctor :: "shared_buffer \<Rightarrow> world \<Rightarrow> shared_buffer \<times> world" where
  "shared_copy_ctor other w =
     (if m_ctrl other \<noteq> 0
      then (\<lparr>m_ctrl = m_ctrl other\<rparr>, snd (fetch_add (m_ctrl other) w))
      else (\<lparr>m_ctrl = m_ctrl other\<rparr>, w))"

text \<open>
  \<open>shared_buffer(shared_buffer &&other)\<close>: the new handle and what is left of \<open>other\<close>.
\<close>

definition shared_move_ctor :: "shared_buffer \<Rightarrow> shared_buffer \<times> shared_buffer" where
  "shared_move_ctor other = (\<lparr>m_ctrl = m_ctrl other\<rparr>, other\<lparr>m_ctrl := 0\<rparr>)"

subsection \<open>Dropping a reference\<close>

definition release_ctrl :: "shared_buffer \<Rightarrow> world \<Rightarrow> shared_buffer \<times> world" where
  "release_ctrl this w =
     (if m_ctrl this = 0 then (this, w)
      else
        let c = m_ctrl this;
            (prev, w1) = fetch_sub c w
        in if prev = 1
           then (case ctrls w1 c of
                   None \<Rightarrow> (this\<lparr>m_ctrl := 0\<rparr>, w1)
                 | Some cb \<Rightarrow>
                     let w2 = (case cb_deleter cb of
                                 None \<Rightarrow> w1
                               | Some d \<Rightarrow> invoke d (cb_ptr cb) w1)
                     in (this\<lparr>m_ctrl := 0\<rparr>,
                         w2\<lparr>ctrls := (ctrls w2)(c := None), trace := trace w2 @ [Delete c]\<rparr>))
           else (this\<lparr>m_ctrl := 0\<rparr>, w1))"

definition shared_dtor :: "shared_buffer \<Rightarrow> world \<Rightarrow> world" where
  "shared_dtor this w = snd (release_ctrl this w)"

definition shared_reset :: "shared_buffer \<Rightarrow> world \<Rightarrow> shared_buffer \<times> world" where
  "shared_reset this w = (let (t, w') = release_ctrl this w in (t\<lparr>m_ctrl := 0\<rparr>, w'))"

subsection \<open>Observers\<close>

text \<open>
  The observers read through \<open>ctrl_\<close>. Reading through a pointer to a block that has
  been deleted is undefined behaviour; the model answers \<open>None\<close> there.
\<close>

definition shared_data :: "shared_buffer \<Rightarrow> world \<Rightarrow> nat option" where
  "shared_data this w =
     (if m_ctrl this \<noteq> 0 then map_option cb_ptr (ctrls w (m_ctrl this)) else Some 0)"

definition shared_size :: "shared_buffer \<Rightarrow> world \<Rightarrow> nat option" where
  "shared_size this w =
     (if m_ctrl this \<noteq> 0 then map_option cb_size (ctrls w (m_ctrl this)) else Some 0)"

definition shared_empty :: "shared_buffer \<Rightarrow> world \<Rightarrow> bool option" where
  "shared_empty this w = map_option (\<lambda>n. n = 0) (shared_size this w)"

definition shared_location :: "shared_buffer \<Rightarrow> world \<Rightarrow> MemoryLocation option" where
  "shared_location this w =
     (if m_ctrl this \<noteq> 0 then map_option cb_location (ctrls w (m_ctrl this)) else Some Host)"


text \<open>
  \<open>use_count()\<close> loads the counter, casts it to \<open>long\<close> and returns it as \<open>size_t\<close>; with
  a 64-bit \<open>long\<close> the two conversions cancel.
\<close>

definition use_count :: "shared_buffer \<Rightarrow> world \<Rightarrow> nat option" where
  "use_count this w =
     (if m_ctrl this \<noteq> 0 then map_option cb_ref (ctrls w (m_ctrl this)) else Some 0)"

definition shared_bool :: "shared_buffer \<Rightarrow> bool" where
  "shared_bool this = (m_ctrl this \<noteq> 0)"

subsection \<open>release, swap, assignment\<close>

definition shared_release ::
  "shared_buffer \<Rightarrow> world \<Rightarrow> released_buffer option \<times> shared_buffer \<times> world" where
  "shared_release this w =
     (if m_ctrl this = 0 then (None, this, w)
      else
        let c = m_ctrl this;
            (ok, w1) = compare_exchange_strong c 1 0 w
        in if \<not> ok then (None, this, w1)
           else (case ctrls w1 c of
                   None \<Rightarrow> (None, this, w1)
                 | Some cb \<Rightarrow>
                     (Some \<lparr>rb_ptr = cb_ptr cb, rb_count = cb_size cb,
                            rb_deleter = cb_deleter cb, rb_location = cb_location cb\<rparr>,
                      this\<lparr>m_ctrl := 0\<rparr>,
                      w1\<lparr>ctrls := (ctrls w1)(c := None), trace := trace w1 @ [Delete c]\<rparr>)))"

definition shared_swap :: "shared_buffer \<Rightarrow> shared_buffer \<Rightarrow> shared_buffer \<times> shared_buffer" where
  "shared_swap this other = (this\<lparr>m_ctrl := m_ctrl other\<rparr>, other\<lparr>m_ctrl := m_ctrl this\<rparr>)"

text \<open>
  The two assignment operators compare \<open>this\<close> with \<open>&other\<close>, so they act on the handle
  objects at two addresses of the store. Either object missing is a use of a dead object.
\<close>

definition shared_copy_assign :: "nat \<Rightarrow> nat \<Rightarrow> world \<Rightarrow> world" where
  "shared_copy_assign this other w =
     (if this = other then w
      else case (sbufs w this, sbufs w other) of
             (Some t, Some oth) \<Rightarrow>
               let new_ctrl = m_ctrl oth;
                   w1 = (if new_ctrl \<noteq> 0 then snd (fetch_add new_ctrl w) else w);
                   (t1, w2) = release_ctrl t w1
               in w2\<lparr>sbufs := (sbufs w2)(this \<mapsto> t1\<lparr>m_ctrl := new_ctrl\<rparr>)\<rparr>
           | _ \<Rightarrow> w\<lparr>ub := True\<rparr>)"

definition shared_move_assign :: "nat \<Rightarrow> nat \<Rightarrow> world \<Rightarrow> world" where
  "shared_move_assign this other w =
     (if this \<noteq> other
      then (case (sbufs w this, sbufs w other) of
              (Some t, Some oth) \<Rightarrow>
                let (t1, w1) = release_ctrl t w
                in w1\<lparr>sbufs := (sbufs w1)(this \<mapsto> t1\<lparr>m_ctrl := m_ctrl oth\<rparr>,
                                            other \<mapsto> oth\<lparr>m_ctrl := 0\<rparr>)\<rparr>
            | _ \<Rightarrow> w\<lparr>ub := True\<rparr>)
      else w)"

section \<open>MemPool\<close>

text \<open>
  The constructor \<open>MemPool(block_size, block_count, loc)\<close> of \<open>MemPool<T, Alignment>\<close>.
  \<open>szT\<close> is \<open>sizeof(T)\<close> and \<open>A\<close> is \<open>Alignment\<close>; both are at least 1 in any
  instantiation. \<open>aligned_alloc\<close> is the C library function, which returns 0 when it
  fails. \<open>ctor_throws i\<close> says that default-constructing the elements of block \<open>i\<close>
  throws; for a trivially default-constructible \<open>T\<close> nothing is constructed and it is
  \<open>False\<close> everywhere. The rollback of the blocks constructed so far and \<open>std::free\<close>
  leave nothing behind, so the failed construction is just the error.
  \<open>reserve_throws\<close> is the exception that \<open>free_blocks_.reserve(block_count_)\<close> throws
  (\<open>std::length_error\<close> above the vector's \<open>max_size()\<close>, \<open>std::bad_alloc\<close>), or \<open>None\<close>
  when it succeeds; an exception leaves the constructor, and no pool is built. After a
  successful \<open>reserve\<close> the \<open>push_back\<close> calls stay within the capacity and cannot throw.
  \<open>data_ + i * stride_\<close> is arithmetic on a \<open>T *\<close>: it moves by
  \<open>i * stride_ * sizeof(T)\<close> bytes.
\<close>

definition MemPool_ctor ::
  "nat \<Rightarrow> nat \<Rightarrow> nat \<Rightarrow> nat \<Rightarrow> MemoryLocation \<Rightarrow> (nat \<Rightarrow> nat \<Rightarrow> nat) \<Rightarrow> (nat \<Rightarrow> bool)
     \<Rightarrow> error option \<Rightarrow> error + MemPool" where
  "MemPool_ctor szT A block_size block_count loc aligned_alloc ctor_throws reserve_throws =
     (if block_size = 0 \<or> block_count = 0 then Inl invalid_argument
      else
        let byte_size = (block_size * szT) mod size_t_mod;
            aligned_byte_size = ((byte_size + A - 1) mod size_t_mod div A * A) mod size_t_mod;
            stride = aligned_byte_size div szT;
            total_bytes = (stride * szT * block_count) mod size_t_mod;
            ptr = aligned_alloc A total_bytes
        in if ptr = 0 then Inl bad_alloc
           else if list_ex ctor_throws [0..<block_count] then Inl rethrown
           else case reserve_throws of
                  Some e \<Rightarrow> Inl e
                | None \<Rightarrow>
                    Inr \<lparr>sizeof_T = szT, Alignment = A, m_block_size = block_size,
                         m_stride = stride, m_block_count = block_count, m_pool_location = loc,
                         m_pool_data = ptr,
                         m_free_blocks = map (\<lambda>i. ptr + i * stride * szT) [0..<block_count]\<rparr>)"

text \<open>
  \<open>allocate()\<close> of the pool at address \<open>this\<close>, which the deleter of the handle captures.
  The mutex is not modelled: the calls of a sequential run never overlap.
\<close>

definition allocate :: "nat \<Rightarrow> MemPool \<Rightarrow> (error + unique_buffer) \<times> MemPool" where
  "allocate this pool =
     (if m_free_blocks pool = [] then (Inl runtime_error, pool)
      else
        let ptr = last (m_free_blocks pool);
            pool' = pool\<lparr>m_free_blocks := butlast (m_free_blocks pool)\<rparr>
        in (Inr (unique_buffer_ctor ptr (m_block_size pool) (Some (PoolReturn this))
                   (m_pool_location pool)),
            pool'))"

definition block_size :: "MemPool \<Rightarrow> nat" where
  "block_size pool = m_block_size pool"

definition capacity :: "MemPool \<Rightarrow> nat" where
  "capacity pool = m_block_count pool"

definition available :: "MemPool \<Rightarrow> nat" where
  "available pool = length (m_free_blocks pool)"

section \<open>A starting state\<close>

text \<open>No pool, no control block, no shared handle, and every unique handle empty.\<close>

definition init_world :: world where
  "init_world = \<lparr>trace = [], pools = Map.empty, ctrls = Map.empty,
                  ubufs = (\<lambda>_. unique_buffer_default), sbufs = Map.empty, ub = False\<rparr>"

section \<open>Programs over shared handles\<close>

text \<open>
  A \<open>shared_buffer\<close> object is one pointer, 8 bytes, and live objects do not overlap, so
  a 64-bit address space holds fewer than \<open>2 ^ 61\<close> of them at a time. The objects of a
  program are named by slot numbers below that bound.
\<close>

definition max_handles :: nat where
  "max_handles = 2 ^ 61"

text \<open>
  The operations a program can apply to its shared handles, one constructor per member
  function; the first argument is the slot of \<open>*this\<close>. The constructing commands carry
  the arguments of the C++ constructor and, where the constructor may run
  \<open>new control_block\<close>, the answer of \<open>new\<close>.
\<close>

datatype command =
    DefaultConstruct nat
  | Construct nat nat nat "deleter option" MemoryLocation "nat option"
  | ConstructReleased nat released_buffer "nat option"
  | ConstructUnique nat unique_buffer "nat option"
  | CopyConstruct nat nat
  | CopyAssign nat nat
  | MoveConstruct nat nat
  | MoveAssign nat nat
  | Release nat
  | Reset nat
  | Swap nat nat
  | Destroy nat

text \<open>
  What C++ itself guarantees about a command is a guard of \<open>exec\<close>, and a command that
  breaks a guard is skipped: an object is constructed in storage that holds no live
  object; a member function is called on live objects; \<open>new\<close> answers with a non-null
  address at which no control block lives. A constructor that throws (or terminates the
  program) constructs nothing and leaves the state as it was. The record that
  \<open>release()\<close> returns leaves the handles' world; a program can hand any record back in
  with \<open>ConstructReleased\<close>.
\<close>

definition fresh_slot :: "world \<Rightarrow> nat \<Rightarrow> bool" where
  "fresh_slot w h = (h < max_handles \<and> sbufs w h = None)"

definition new_ok :: "world \<Rightarrow> nat option \<Rightarrow> bool" where
  "new_ok w new_answer =
     (case new_answer of None \<Rightarrow> True | Some a \<Rightarrow> a \<noteq> 0 \<and> ctrls w a = None)"

definition place :: "nat \<Rightarrow> (error + shared_buffer) \<times> world \<Rightarrow> world" where
  "place h r =
     (case r of
        (Inl e, w') \<Rightarrow> w'
      | (Inr s, w') \<Rightarrow> w'\<lparr>sbufs := (sbufs w')(h \<mapsto> s)\<rparr>)"

fun exec :: "command \<Rightarrow> world \<Rightarrow> world" where
  "exec (DefaultConstruct h) w =
     (if fresh_slot w h then w\<lparr>sbufs := (sbufs w)(h \<mapsto> shared_buffer_default)\<rparr> else w)"
| "exec (Construct h p n d loc new_answer) w =
     (if fresh_slot w h \<and> new_ok w new_answer
      then place h (shared_buffer_ctor p n d loc new_answer w)
      else w)"
| "exec (ConstructReleased h rb new_answer) w =
     (if fresh_slot w h \<and> new_ok w new_answer
      then place h (shared_buffer_from_released rb new_answer w)
      else w)"
| "exec (ConstructUnique h u_b new_answer) w =
     (if fresh_slot w h \<and> new_ok w new_answer
      then (case shared_buffer_from_unique u_b new_answer w of (r, u', w') \<Rightarrow> place h (r, w'))
      else w)"
| "exec (CopyConstruct h src) w =
     (case sbufs w src of
        None \<Rightarrow> w
      | Some other \<Rightarrow>
          if fresh_slot w h
          then (let (s, w') = shared_copy_ctor other w in w'\<lparr>sbufs := (sbufs w')(h \<mapsto> s)\<rparr>)
          else w)"
| "exec (CopyAssign this other) w =
     (if sbufs w this \<noteq> None \<and> sbufs w other \<noteq> None then shared_copy_assign this other w else w)"
| "exec (MoveConstruct h src) w =
     (case sbufs w src of
        None \<Rightarrow> w
      | Some other \<Rightarrow>
          if fresh_slot w h
          then (let (s, other') = shared_move_ctor other
                in w\<lparr>sbufs := (sbufs w)(h \<mapsto> s, src \<mapsto> other')\<rparr>)
          else w)"
| "exec (MoveAssign this other) w =
     (if sbufs w this \<noteq> None \<and> sbufs w other \<noteq> None then shared_move_assign this other w else w)"
| "exec (Release h) w =
     (case sbufs w h of
        None \<Rightarrow> w
      | Some s \<Rightarrow> (let (r, s', w') = shared_release s w in w'\<lparr>sbufs := (sbufs w')(h \<mapsto> s')\<rparr>))"
| "exec (Reset h) w =
     (case sbufs w h of
        None \<Rightarrow> w
      | Some s \<Rightarrow> (let (s', w') = shared_reset s w in w'\<lparr>sbufs := (sbufs w')(h \<mapsto> s')\<rparr>))"
| "exec (Swap a b) w =
     (case (sbufs w a, sbufs w b) of
        (Some x, Some y) \<Rightarrow>
          (let (x', y') = shared_swap x y in w\<lparr>sbufs := (sbufs w)(a \<mapsto> x', b \<mapsto> y')\<rparr>)
      | _ \<Rightarrow> w)"
| "exec (Destroy h) w =
     (case sbufs w h of
        None \<Rightarrow> w
      | Some s \<Rightarrow> (let w' = shared_dtor s w in w'\<lparr>sbufs := (sbufs w')(h := None)\<rparr>))"

fun run :: "command list \<Rightarrow> world \<Rightarrow> world" where
  "run [] w = w"
| "run (c # cs) w = run cs (exec c w)"

section \<open>The invariant of the shared handles\<close>

text \<open>
  \<open>owners S c\<close> are the slots whose handle points to the control block at \<open>c\<close>. The
  invariant of a store of handles \<open>S\<close> and a store of control blocks \<open>C\<close>: no block
  lives at the null address, every non-null \<open>ctrl_\<close> points to a live block, and every
  live block has a non-null pointer, a positive size and a counter that is positive and
  equal to the number of its owners.
\<close>

definition owners :: "(nat \<rightharpoonup> shared_buffer) \<Rightarrow> nat \<Rightarrow> nat set" where
  "owners S c = {h. \<exists>s. S h = Some s \<and> m_ctrl s = c}"

definition store_inv :: "(nat \<rightharpoonup> shared_buffer) \<Rightarrow> (nat \<rightharpoonup> control_block) \<Rightarrow> bool" where
  "store_inv S C =
     (dom S \<subseteq> {..<max_handles}
      \<and> C 0 = None
      \<and> (\<forall>h s. S h = Some s \<longrightarrow> m_ctrl s \<noteq> 0 \<longrightarrow> C (m_ctrl s) \<noteq> None)
      \<and> (\<forall>c cb. C c = Some cb \<longrightarrow>
             cb_ptr cb \<noteq> 0 \<and> 0 < cb_size cb \<and> 0 < cb_ref cb \<and> cb_ref cb = card (owners S c)))"

definition world_inv :: "world \<Rightarrow> bool" where
  "world_inv w = store_inv (sbufs w) (ctrls w)"

section \<open>Drivers and abbreviations for the pool\<close>

text \<open>\<open>n\<close> calls of \<open>allocate()\<close> in a row, with nothing returned in between.\<close>

fun allocate_all :: "nat \<Rightarrow> nat \<Rightarrow> MemPool \<Rightarrow> (error + unique_buffer) list \<times> MemPool" where
  "allocate_all this 0 pool = ([], pool)"
| "allocate_all this (Suc n) pool =
     (let (r, pool1) = allocate this pool;
          (rs, pool2) = allocate_all this n pool1
      in (r # rs, pool2))"

text \<open>The value the constructor computes for \<open>stride_\<close>, as one expression.\<close>

definition stride_of :: "nat \<Rightarrow> nat \<Rightarrow> nat \<Rightarrow> nat" where
  "stride_of szT A bs =
     (((bs * szT) mod size_t_mod + A - 1) mod size_t_mod div A * A) mod size_t_mod div szT"

section \<open>Properties of unique_buffer\<close>

lemma ubufs_invoke: "ubufs (invoke d p w) = ubufs w"
  by (simp add: invoke_def Let_def split: deleter.splits option.splits)

lemma trace_invoke: "trace (invoke d p w) = trace w @ [Invoke d p]"
  by (simp add: invoke_def Let_def split: deleter.splits option.splits)

text \<open>
  Claim C4. A non-empty unique handle \<open>u\<close> is released, a unique handle \<open>v\<close> is
  rebuilt from the record, and both handles are destroyed. The record and \<open>v\<close> carry the
  pointer, the count, the location and the deleter of \<open>u\<close>; destroying what is left of
  \<open>u\<close> calls nothing; over the whole lifetime the trace grows by exactly one event, the
  call of the deleter of \<open>u\<close> on the pointer of \<open>u\<close>. (A handle that was given no
  deleter has none to call, and the trace does not grow.)
\<close>

theorem unique_release_roundtrip:
  assumes "m_data u \<noteq> 0"
  shows "let (rb, u1) = unique_release u;
             v = unique_buffer_from_released rb;
             w1 = unique_dtor u1 w;
             w2 = unique_dtor v w1
         in rb_ptr rb = m_data u \<and> rb_count rb = m_count u \<and> rb_location rb = m_location u
            \<and> rb_deleter rb = m_deleter u
            \<and> m_data v = m_data u \<and> m_count v = m_count u \<and> m_location v = m_location u
            \<and> m_deleter v = m_deleter u
            \<and> u1 = unique_buffer_default
            \<and> trace w1 = trace w
            \<and> trace w2 = trace w @
                 (case m_deleter u of None \<Rightarrow> [] | Some d \<Rightarrow> [Invoke d (m_data u)])"
  using assms
  by (simp add: unique_release_def unique_buffer_from_released_def unique_dtor_def
      unique_reset_def trace_invoke Let_def unique_buffer_default_def split: option.splits)

theorem unique_release_roundtrip_witness:
  "let u = unique_buffer_ctor 4096 8 (Some (UserDeleter 1)) Device;
       (rb, u1) = unique_release u;
       v = unique_buffer_from_released rb;
       w1 = unique_dtor u1 init_world;
       w2 = unique_dtor v w1
   in m_data u \<noteq> 0 \<and> m_deleter u = Some (UserDeleter 1)
      \<and> m_data v = 4096 \<and> m_count v = 8 \<and> m_location v = Device
      \<and> trace w2 = [Invoke (UserDeleter 1) 4096]"
  using unique_release_roundtrip
          [of "unique_buffer_ctor 4096 8 (Some (UserDeleter 1)) Device" init_world]
  by (simp add: unique_buffer_ctor_def init_world_def Let_def split: prod.splits)

text \<open>
  Claim C5. The move constructor hands the pointer, count, location and deleter of the
  source to the new handle and leaves the source equal to a default-constructed handle:
  it converts to \<open>false\<close>, compares equal to \<open>nullptr\<close>, and destroying it changes
  nothing. Move assignment of a handle to itself changes nothing. Move assignment between
  two different handles leaves the destination with the source's old state and the source
  empty, and the only call it makes is the one on the buffer the destination owned
  before: its own deleter, on its own old pointer.
\<close>

theorem unique_move_semantics:
  "(let (t, oth) = unique_move_ctor other
    in m_data t = m_data other \<and> m_count t = m_count other \<and> m_location t = m_location other
       \<and> m_deleter t = m_deleter other
       \<and> oth = unique_buffer_default \<and> \<not> unique_bool oth \<and> unique_eq_nullptr oth
       \<and> unique_dtor oth w = w)
   \<and> unique_move_assign this this w = w
   \<and> (this \<noteq> src \<longrightarrow>
        (let w' = unique_move_assign this src w
         in ubufs w' this = ubufs w src
            \<and> ubufs w' src = unique_buffer_default
            \<and> \<not> unique_bool (ubufs w' src) \<and> unique_eq_nullptr (ubufs w' src)
            \<and> unique_dtor (ubufs w' src) w' = w'
            \<and> trace w' = trace w @
                 (if m_data (ubufs w this) \<noteq> 0
                  then (case m_deleter (ubufs w this) of
                          None \<Rightarrow> []
                        | Some d \<Rightarrow> [Invoke d (m_data (ubufs w this))])
                  else [])))"
  by (auto simp add: unique_move_ctor_def steal_from_def unique_buffer_default_def unique_bool_def
      unique_eq_nullptr_def unique_dtor_def unique_reset_def unique_move_assign_def Let_def
      ubufs_invoke trace_invoke split: prod.splits option.splits)

theorem unique_move_semantics_witness:
  "let w = init_world\<lparr>ubufs := (ubufs init_world)
                 (1 := unique_buffer_ctor 100 3 (Some (UserDeleter 1)) Host,
                  2 := unique_buffer_ctor 200 4 (Some (UserDeleter 2)) Device)\<rparr>;
       w' = unique_move_assign 1 2 w
   in (1::nat) \<noteq> 2
      \<and> ubufs w' 1 = unique_buffer_ctor 200 4 (Some (UserDeleter 2)) Device
      \<and> ubufs w' 2 = unique_buffer_default
      \<and> trace w' = [Invoke (UserDeleter 1) 100]"
  using unique_move_semantics
          [where this = 1 and src = 2 and w = "init_world\<lparr>ubufs := (ubufs init_world)
                 (1 := unique_buffer_ctor 100 3 (Some (UserDeleter 1)) Host,
                  2 := unique_buffer_ctor 200 4 (Some (UserDeleter 2)) Device)\<rparr>"]
  by (simp add: init_world_def unique_buffer_ctor_def Let_def)

section \<open>Handles built from a null pointer and a zero count\<close>

text \<open>
  Claim C9, as stated, fails for the unique handle: the adopting constructor stores its
  deleter and location arguments whatever the pointer and count are, so the handle holds
  the deleter it was given, and reports the location it was given.
\<close>

theorem null_zero_unique_keeps_deleter_counterexample:
  "get_deleter (unique_buffer_ctor 0 0 (Some (UserDeleter 1)) Host) = Some (UserDeleter 1)
   \<and> get_deleter unique_buffer_default = None
   \<and> location (unique_buffer_ctor 0 0 None Device) = Device
   \<and> location unique_buffer_default = Host"
  by (simp add: get_deleter_def unique_buffer_ctor_def unique_buffer_default_def location_def)

text \<open>
  Claim C9, amended. A unique handle constructed with a null pointer and a zero count
  converts to \<open>false\<close>, has a null data pointer and size 0, and destroying it calls
  nothing; it keeps the location and the deleter it was given, and so equals a
  default-constructed handle exactly when the deleter is empty and the location is
  \<open>Host\<close>. A shared handle constructed with a null pointer or a zero count is the
  default-constructed handle: no control block is allocated, the deleter is not kept, the
  state is unchanged, and it reports \<open>false\<close>, a null data pointer, size 0, location
  \<open>Host\<close> and a use count of 0.
\<close>

theorem null_zero_construction:
  "(let u = unique_buffer_ctor 0 0 d loc
    in \<not> unique_bool u \<and> unique_eq_nullptr u \<and> get u = 0 \<and> data u = 0 \<and> size_of u = 0
       \<and> empty_of u \<and> location u = loc \<and> get_deleter u = d
       \<and> (u = unique_buffer_default) = (d = None \<and> loc = Host)
       \<and> unique_dtor u w = w)
   \<and> (p = 0 \<or> n = 0 \<longrightarrow>
        shared_buffer_ctor p n d loc new_answer w = (Inr shared_buffer_default, w))
   \<and> \<not> shared_bool shared_buffer_default
   \<and> shared_data shared_buffer_default w = Some 0
   \<and> shared_size shared_buffer_default w = Some 0
   \<and> shared_empty shared_buffer_default w = Some True
   \<and> shared_location shared_buffer_default w = Some Host
   \<and> use_count shared_buffer_default w = Some 0"
  by (auto simp add: unique_buffer_ctor_def unique_bool_def unique_eq_nullptr_def get_def data_def
      size_of_def empty_of_def location_def get_deleter_def unique_buffer_default_def
      unique_dtor_def unique_reset_def shared_buffer_ctor_def shared_buffer_default_def
      shared_bool_def shared_data_def shared_size_def shared_empty_def shared_location_def
      use_count_def Let_def)

theorem null_zero_construction_witness:
  "((0::nat) = 0 \<or> (5::nat) = 0) \<and>
   shared_buffer_ctor 0 5 (Some (UserDeleter 1)) Device (Some 64) init_world
     = (Inr shared_buffer_default, init_world)"
  using null_zero_construction
          [where p = 0 and n = 5 and d = "Some (UserDeleter 1)" and loc = Device
             and new_answer = "Some 64" and w = init_world]
  by simp

section \<open>Properties of shared_buffer\<close>

lemma sbufs_invoke: "sbufs (invoke d p w) = sbufs w"
  by (simp add: invoke_def Let_def split: deleter.splits option.splits)

lemma ctrls_invoke: "ctrls (invoke d p w) = ctrls w"
  by (simp add: invoke_def Let_def split: deleter.splits option.splits)


lemma mod_pred_small:
  "1 \<le> n \<Longrightarrow> n < size_t_mod \<Longrightarrow> (n + size_t_mod - 1) mod size_t_mod = n - 1"
  by (simp add: size_t_mod_def mod_if)

text \<open>
  Claim C1. For a shared handle that is empty or whose control block is alive,
  \<open>release()\<close> returns a record exactly when \<open>use_count()\<close> is 1 at the call. When it
  does, the record holds the pointer, size, deleter and location of the control block,
  the handle is empty, the control block is gone from the store, and the trace grows by
  the successful compare-and-swap and the deletion of the block, not by a call of the
  deleter. When it does not, the result is \<open>nullopt\<close>, the handle and all control blocks
  are as before, and the trace grows by nothing (empty handle) or by the one failed
  compare-and-swap.
\<close>

theorem shared_release_unique_owner:
  assumes "m_ctrl h = 0 \<or> ctrls w (m_ctrl h) \<noteq> None"
  shows "let (r, h', w') = shared_release h w
         in (r \<noteq> None) = (use_count h w = Some 1)
            \<and> (r \<noteq> None \<longrightarrow>
                 (case ctrls w (m_ctrl h) of
                    None \<Rightarrow> False
                  | Some cb \<Rightarrow>
                      r = Some \<lparr>rb_ptr = cb_ptr cb, rb_count = cb_size cb,
                                rb_deleter = cb_deleter cb, rb_location = cb_location cb\<rparr>)
                 \<and> h' = shared_buffer_default \<and> \<not> shared_bool h'
                 \<and> ctrls w' = (ctrls w)(m_ctrl h := None)
                 \<and> trace w' = trace w @ [CompareExchange (m_ctrl h) True, Delete (m_ctrl h)]
                 \<and> pools w' = pools w \<and> ub w' = ub w)
            \<and> (r = None \<longrightarrow>
                 h' = h \<and> ctrls w' = ctrls w \<and> pools w' = pools w \<and> ub w' = ub w
                 \<and> trace w' = trace w @
                      (if m_ctrl h = 0 then [] else [CompareExchange (m_ctrl h) False]))"
  using assms
  by (auto simp add: shared_release_def compare_exchange_strong_def use_count_def Let_def
      shared_buffer_default_def shared_bool_def split: option.splits)

theorem shared_release_unique_owner_witness:
  "let w = init_world\<lparr>ctrls := [64 \<mapsto> \<lparr>cb_ref = 1, cb_ptr = 4096, cb_size = 5,
                                        cb_deleter = Some (UserDeleter 1), cb_location = Device\<rparr>]\<rparr>;
       h = \<lparr>m_ctrl = 64\<rparr>;
       (r, h', w') = shared_release h w
   in (m_ctrl h = 0 \<or> ctrls w (m_ctrl h) \<noteq> None)
      \<and> use_count h w = Some 1
      \<and> r = Some \<lparr>rb_ptr = 4096, rb_count = 5, rb_deleter = Some (UserDeleter 1),
                   rb_location = Device\<rparr>
      \<and> h' = shared_buffer_default \<and> ctrls w' 64 = None
      \<and> trace w' = [CompareExchange 64 True, Delete 64]"
  using shared_release_unique_owner
          [where h = "\<lparr>m_ctrl = 64\<rparr>"
             and w = "init_world\<lparr>ctrls := [64 \<mapsto> \<lparr>cb_ref = 1, cb_ptr = 4096, cb_size = 5,
                                        cb_deleter = Some (UserDeleter 1), cb_location = Device\<rparr>]\<rparr>"]
  by (simp add: init_world_def use_count_def Let_def shared_buffer_default_def
      split: prod.splits option.splits)







section \<open>Properties of MemPool\<close>

lemma MemPool_ctor_Inr:
  assumes "MemPool_ctor szT A bs n loc aligned_alloc ctor_throws reserve_throws = Inr pool"
  shows "pool = \<lparr>sizeof_T = szT, Alignment = A, m_block_size = bs,
                 m_stride = stride_of szT A bs, m_block_count = n, m_pool_location = loc,
                 m_pool_data = aligned_alloc A ((stride_of szT A bs * szT * n) mod size_t_mod),
                 m_free_blocks =
                   map (\<lambda>i. aligned_alloc A ((stride_of szT A bs * szT * n) mod size_t_mod)
                              + i * stride_of szT A bs * szT) [0..<n]\<rparr>"
  using assms unfolding MemPool_ctor_def Let_def stride_of_def
  by (simp only: sum.inject sum.distinct option.case split: if_splits option.splits)

lemma MemPool_ctor_args:
  assumes "MemPool_ctor szT A bs n loc aligned_alloc ctor_throws reserve_throws = Inr pool"
  shows "0 < bs \<and> 0 < n"
proof (cases "bs = 0 \<or> n = 0")
  case True
  then show ?thesis using assms by (simp add: MemPool_ctor_def)
next
  case False
  then show ?thesis by simp
qed

lemma MemPool_ctor_free_blocks:
  assumes "MemPool_ctor szT A bs n loc aligned_alloc ctor_throws reserve_throws = Inr pool"
  shows "length (m_free_blocks pool) = n \<and> m_block_count pool = n \<and> m_block_size pool = bs
         \<and> 0 < n"
  using MemPool_ctor_args [OF assms] by (simp add: MemPool_ctor_Inr [OF assms])

text \<open>
  When \<open>sizeof(T)\<close> divides the alignment and nothing overflows, the padded block is what
  the comment in the constructor promises: the least multiple of the alignment that
  holds \<open>block_size\<close> elements.
\<close>

lemma stride_of_exact:
  assumes "0 < szT" and "0 < A" and "szT dvd A" and "bs * szT + A \<le> size_t_mod"
  shows "stride_of szT A bs * szT = (bs * szT + A - 1) div A * A"
proof -
  let ?b = "bs * szT"
  have b: "?b mod size_t_mod = ?b" using assms(2,4) by simp
  have c: "(?b + A - 1) mod size_t_mod = ?b + A - 1" using assms(2,4) by simp
  have le: "(?b + A - 1) div A * A \<le> ?b + A - 1" by simp
  have lt: "?b + A - 1 < size_t_mod" using assms(2,4) by linarith
  have d: "((?b + A - 1) div A * A) mod size_t_mod = (?b + A - 1) div A * A"
    by (rule mod_less) (use le lt in linarith)
  have "szT dvd (?b + A - 1) div A * A" using assms(3) by simp
  then have "(?b + A - 1) div A * A div szT * szT = (?b + A - 1) div A * A"
    by (rule dvd_div_mult_self)
  then show ?thesis by (simp only: stride_of_def b c d)
qed

text \<open>
  Claim C2 does not hold of the code: the constructor divides the padded byte size by
  \<open>sizeof(T)\<close> and drops the remainder. With a 12-byte element, the default alignment 64,
  one element per block and sixteen blocks (an arena of 960 bytes, itself a multiple of
  64), the stride is 5 elements, 60 bytes, and the first
  block handed out starts 900 bytes after an aligned base, 4 bytes past a multiple of 64.
\<close>

theorem stride_truncation_breaks_alignment:
  "case MemPool_ctor 12 64 1 16 Host (\<lambda>al n. if al = 64 \<and> n = 960 then 4096 else 0)
          (\<lambda>i. False) None of
     Inl e \<Rightarrow> False
   | Inr pool \<Rightarrow>
       m_pool_data pool = 4096 \<and> m_pool_data pool mod 64 = 0
       \<and> m_stride pool = 5
       \<and> m_stride pool * sizeof_T pool = 60
       \<and> (case allocate 1 pool of
             (Inl e, pool') \<Rightarrow> False
           | (Inr u, pool') \<Rightarrow> m_data u = 4996 \<and> m_data u mod Alignment pool = 4)"
  by (simp add: MemPool_ctor_def size_t_mod_def Let_def allocate_def unique_buffer_ctor_def
      upt_conv_Cons)

lemma pool_example_ctor:
  assumes "aligned_alloc 128 384 = D" and "D \<noteq> 0"
  shows "MemPool_ctor 1 128 100 3 loc aligned_alloc (\<lambda>i. False) None =
           Inr \<lparr>sizeof_T = 1, Alignment = 128, m_block_size = 100, m_stride = 128,
                m_block_count = 3, m_pool_location = loc, m_pool_data = D,
                m_free_blocks = [D, D + 128, D + 256]\<rparr>"
  using assms
  by (simp add: MemPool_ctor_def size_t_mod_def Let_def upt_conv_Cons)

text \<open>
  Claim C3, as stated, fails: the free list is filled in ascending order and \<open>allocate()\<close>
  takes it from the back, so with the base at 1024 the first block handed out is the one
  at 1280, not the one at the base, and the second is 128 bytes below the first.
\<close>

theorem pool_example_order_counterexample:
  "case MemPool_ctor 1 128 100 3 Host (\<lambda>al n. 1024) (\<lambda>i. False) None of
     Inl e \<Rightarrow> False
   | Inr pool \<Rightarrow>
       m_pool_data pool = 1024 \<and>
       (case allocate 7 pool of
          (Inl e, pool1) \<Rightarrow> False
        | (Inr u1, pool1) \<Rightarrow>
            (case allocate 7 pool1 of
               (Inl e, pool2) \<Rightarrow> False
             | (Inr u2, pool2) \<Rightarrow>
                 m_data u1 = 1280 \<and> m_data u2 = 1152 \<and> m_data u1 \<noteq> m_pool_data pool
                 \<and> m_data u2 \<noteq> m_data u1 + 128))"
  using pool_example_ctor [of "\<lambda>al n. 1024" 1024 Host]
  by (simp add: allocate_def unique_buffer_ctor_def)

text \<open>
  Claim C3, amended. For 1-byte elements, alignment 128, \<open>block_size = 100\<close> and
  \<open>block_count = 3\<close>, with the arena at a non-null base \<open>D\<close> that is a multiple of 128:
  the stride is 128 bytes; three \<open>allocate()\<close> calls in a row return the blocks at
  \<open>D + 256\<close>, \<open>D + 128\<close> and \<open>D\<close>, in that order, each of 100 elements and each at a
  multiple of 128; a fourth call fails with \<open>std::runtime_error\<close> and leaves the pool
  as it was; and after the handle of the first block handed out (the one at \<open>D + 256\<close>)
  is destroyed, the next \<open>allocate()\<close> returns that block again.
\<close>

theorem pool_example_sequence:
  assumes "aligned_alloc 128 384 = D" and "D \<noteq> 0" and "D mod 128 = 0"
  shows "case MemPool_ctor 1 128 100 3 loc aligned_alloc (\<lambda>i. False) None of
           Inl e \<Rightarrow> False
         | Inr pool \<Rightarrow>
             m_stride pool * sizeof_T pool = 128 \<and>
             (let (r1, pool1) = allocate a pool;
                  (r2, pool2) = allocate a pool1;
                  (r3, pool3) = allocate a pool2;
                  (r4, pool4) = allocate a pool3;
                  u1 = unique_buffer_ctor (D + 256) 100 (Some (PoolReturn a)) loc
              in r1 = Inr u1
                 \<and> r2 = Inr (unique_buffer_ctor (D + 128) 100 (Some (PoolReturn a)) loc)
                 \<and> r3 = Inr (unique_buffer_ctor D 100 (Some (PoolReturn a)) loc)
                 \<and> (D + 256) mod 128 = 0 \<and> (D + 128) mod 128 = 0
                 \<and> r4 = Inl runtime_error \<and> pool4 = pool3
                 \<and> (pools w a = Some pool4 \<longrightarrow>
                      (case pools (unique_dtor u1 w) a of
                         None \<Rightarrow> False
                       | Some pool5 \<Rightarrow> fst (allocate a pool5) = Inr u1)))"
proof -
  have m1: "(D + 256) mod 128 = 0" and m2: "(D + 128) mod 128 = 0"
    using assms(3) by presburger+
  show ?thesis
    using assms m1 m2 pool_example_ctor [of aligned_alloc D loc]
    by (simp add: allocate_def unique_buffer_ctor_def Let_def unique_dtor_def
        unique_reset_def invoke_def release_block_def)
qed

theorem pool_example_sequence_witness:
  "(1024::nat) \<noteq> 0 \<and> (1024::nat) mod 128 = 0 \<and>
   (case MemPool_ctor 1 128 100 3 Host (\<lambda>al n. 1024) (\<lambda>i. False) None of
      Inl e \<Rightarrow> False
    | Inr pool \<Rightarrow>
        (let (r1, pool1) = allocate 7 pool;
             (r2, pool2) = allocate 7 pool1;
             (r3, pool3) = allocate 7 pool2;
             (r4, pool4) = allocate 7 pool3;
             w = init_world\<lparr>pools := [7 \<mapsto>
                   \<lparr>sizeof_T = 1, Alignment = 128, m_block_size = 100, m_stride = 128,
                    m_block_count = 3, m_pool_location = Host, m_pool_data = 1024,
                    m_free_blocks = []\<rparr>]\<rparr>;
             u1 = unique_buffer_ctor 1280 100 (Some (PoolReturn 7)) Host
         in r1 = Inr u1
            \<and> r2 = Inr (unique_buffer_ctor 1152 100 (Some (PoolReturn 7)) Host)
            \<and> r3 = Inr (unique_buffer_ctor 1024 100 (Some (PoolReturn 7)) Host)
            \<and> r4 = Inl runtime_error
            \<and> pools w 7 = Some pool4
            \<and> (case pools (unique_dtor u1 w) 7 of
                  None \<Rightarrow> False
                | Some pool5 \<Rightarrow> fst (allocate 7 pool5) = Inr u1)))"
  using pool_example_sequence
          [where aligned_alloc = "\<lambda>al n. 1024" and D = 1024 and loc = Host and a = 7
             and w = "init_world\<lparr>pools := [7 \<mapsto>
                        \<lparr>sizeof_T = 1, Alignment = 128, m_block_size = 100, m_stride = 128,
                         m_block_count = 3, m_pool_location = Host, m_pool_data = 1024,
                         m_free_blocks = []\<rparr>]\<rparr>"]
        pool_example_ctor [of "\<lambda>al n. 1024" 1024 Host]
  by (simp add: Let_def init_world_def allocate_def)

lemma allocate_nonempty:
  "m_free_blocks pool \<noteq> [] \<Longrightarrow>
   allocate a pool =
     (Inr (unique_buffer_ctor (last (m_free_blocks pool)) (m_block_size pool)
             (Some (PoolReturn a)) (m_pool_location pool)),
      pool\<lparr>m_free_blocks := butlast (m_free_blocks pool)\<rparr>)"
  by (simp add: allocate_def Let_def)

lemma allocate_all_take:
  "n \<le> length (m_free_blocks pool) \<Longrightarrow>
   allocate_all a n pool =
     (map (\<lambda>p. Inr (unique_buffer_ctor p (m_block_size pool) (Some (PoolReturn a))
                      (m_pool_location pool)))
        (take n (rev (m_free_blocks pool))),
      pool\<lparr>m_free_blocks := take (length (m_free_blocks pool) - n) (m_free_blocks pool)\<rparr>)"
proof (induction n arbitrary: pool)
  case 0
  then show ?case by simp
next
  case (Suc n)
  let ?fb = "m_free_blocks pool"
  from Suc.prems have ne: "?fb \<noteq> []" by auto
  let ?pool1 = "pool\<lparr>m_free_blocks := butlast ?fb\<rparr>"
  have len: "n \<le> length (m_free_blocks ?pool1)" using Suc.prems by simp
  have r: "rev ?fb = last ?fb # rev (butlast ?fb)"
    using ne by (metis append_butlast_last_id rev_append rev_singleton_conv append_Cons append_Nil)
  have t: "take (length ?fb - Suc n) (butlast ?fb) = take (length ?fb - Suc n) ?fb"
    by (simp add: butlast_conv_take min_def)
  show ?case
    using Suc.IH [OF len] ne
    by (simp add: allocate_nonempty r t)
qed

text \<open>
  Claim C6. A pool constructed with \<open>n\<close> blocks answers \<open>n\<close> calls of \<open>allocate()\<close> in a
  row with \<open>n\<close> handles and is then out of blocks. A pool with no free block answers
  \<open>allocate()\<close> with \<open>std::runtime_error\<close> and is unchanged. When a handle issued by the
  pool is destroyed, its deleter puts its block back: one more block is available, and
  the next \<open>allocate()\<close> succeeds and returns the address just freed, whatever else is
  on the free list, leaving the pool as it was before the block came back.
\<close>

theorem pool_exhaustion_and_lifo:
  "(MemPool_ctor szT A bs n loc aligned_alloc ctor_throws reserve_throws = Inr pool0 \<longrightarrow>
      (let (rs, pool) = allocate_all a n pool0
       in capacity pool0 = n \<and> length rs = n \<and> list_all (\<lambda>r. \<not> isl r) rs
          \<and> available pool = 0
          \<and> allocate a pool = (Inl runtime_error, pool)))
   \<and> (available pool = 0 \<longrightarrow> allocate a pool = (Inl runtime_error, pool))
   \<and> (pools w a = Some pool \<and> m_deleter u = Some (PoolReturn a) \<and> m_data u \<noteq> 0 \<longrightarrow>
        (case pools (unique_dtor u w) a of
           None \<Rightarrow> False
         | Some pool1 \<Rightarrow>
             available pool1 = available pool + 1
             \<and> allocate a pool1 =
                 (Inr (unique_buffer_ctor (m_data u) (m_block_size pool) (Some (PoolReturn a))
                         (m_pool_location pool)),
                  pool)))"
proof -
  have ex: "allocate a p = (Inl runtime_error, p)" if "available p = 0" for p
    using that by (simp add: available_def allocate_def)
  have p1: "capacity pool0 = n \<and> length rs = n \<and> list_all (\<lambda>r. \<not> isl r) rs
            \<and> available pool = 0 \<and> allocate a pool = (Inl runtime_error, pool)"
    if c: "MemPool_ctor szT A bs n loc aligned_alloc ctor_throws reserve_throws = Inr pool0"
      and al: "allocate_all a n pool0 = (rs, pool)" for rs pool
  proof -
    from MemPool_ctor_free_blocks [OF c]
    have len: "length (m_free_blocks pool0) = n" and cnt: "m_block_count pool0 = n" by simp_all
    from allocate_all_take [of n pool0 a] len al
    have rs: "rs = map (\<lambda>p. Inr (unique_buffer_ctor p (m_block_size pool0) (Some (PoolReturn a))
                      (m_pool_location pool0))) (take n (rev (m_free_blocks pool0)))"
      and pl: "pool = pool0\<lparr>m_free_blocks :=
                        take (length (m_free_blocks pool0) - n) (m_free_blocks pool0)\<rparr>"
      by simp_all
    have av: "available pool = 0" using pl len by (simp add: available_def)
    have "length rs = n" using rs len by simp
    moreover have "list_all (\<lambda>r. \<not> isl r) rs" using rs by (simp add: list_all_iff)
    ultimately show ?thesis using cnt av ex [OF av] by (simp add: capacity_def)
  qed
  have p3: "case pools (unique_dtor u w) a of
           None \<Rightarrow> False
         | Some pool1 \<Rightarrow>
             available pool1 = available pool + 1
             \<and> allocate a pool1 =
                 (Inr (unique_buffer_ctor (m_data u) (m_block_size pool) (Some (PoolReturn a))
                         (m_pool_location pool)),
                  pool)"
    if "pools w a = Some pool" and "m_deleter u = Some (PoolReturn a)" and "m_data u \<noteq> 0"
    using that
    by (simp add: unique_dtor_def unique_reset_def invoke_def release_block_def allocate_def
        Let_def available_def)
  show ?thesis
  proof (intro conjI impI)
    assume c: "MemPool_ctor szT A bs n loc aligned_alloc ctor_throws reserve_throws = Inr pool0"
    obtain rs pool' where al: "allocate_all a n pool0 = (rs, pool')"
      by (cases "allocate_all a n pool0")
    from p1 [OF c al] show "let (rs, pool) = allocate_all a n pool0
       in capacity pool0 = n \<and> length rs = n \<and> list_all (\<lambda>r. \<not> isl r) rs
          \<and> available pool = 0
          \<and> allocate a pool = (Inl runtime_error, pool)"
      by (simp add: al)
  next
    assume "available pool = 0"
    then show "allocate a pool = (Inl runtime_error, pool)" by (rule ex)
  next
    assume "pools w a = Some pool \<and> m_deleter u = Some (PoolReturn a) \<and> m_data u \<noteq> 0"
    then show "case pools (unique_dtor u w) a of
           None \<Rightarrow> False
         | Some pool1 \<Rightarrow>
             available pool1 = available pool + 1
             \<and> allocate a pool1 =
                 (Inr (unique_buffer_ctor (m_data u) (m_block_size pool) (Some (PoolReturn a))
                         (m_pool_location pool)),
                  pool)"
      using p3 by blast
  qed
qed

theorem pool_exhaustion_and_lifo_witness:
  "let P0 = \<lparr>sizeof_T = 4, Alignment = 64, m_block_size = 16, m_stride = 16,
             m_block_count = 2, m_pool_location = Host, m_pool_data = 4096,
             m_free_blocks = [4096, 4160]\<rparr>;
       Pex = P0\<lparr>m_free_blocks := []\<rparr>;
       U = unique_buffer_ctor 4160 16 (Some (PoolReturn 9)) Host;
       W = init_world\<lparr>pools := [9 \<mapsto> Pex]\<rparr>
   in MemPool_ctor 4 64 16 2 Host (\<lambda>al n. 4096) (\<lambda>i. False) None = Inr P0
      \<and> (let (rs, pool) = allocate_all 9 2 P0
          in length rs = 2 \<and> pool = Pex \<and> allocate 9 pool = (Inl runtime_error, pool))
      \<and> available Pex = 0
      \<and> pools W 9 = Some Pex \<and> m_deleter U = Some (PoolReturn 9) \<and> m_data U \<noteq> 0
      \<and> (case pools (unique_dtor U W) 9 of
            None \<Rightarrow> False
          | Some pool1 \<Rightarrow> available pool1 = 1 \<and> allocate 9 pool1 = (Inr U, Pex))"
proof -
  have two: "allocate_all a 2 p =
               (let (r, p1) = allocate a p; (r', p2) = allocate a p1 in ([r, r'], p2))" for a p
    by (simp add: numeral_2_eq_2 split: prod.splits)
  show ?thesis
  using pool_exhaustion_and_lifo
          [where szT = 4 and A = 64 and bs = 16 and n = 2 and loc = Host
             and aligned_alloc = "\<lambda>al n. 4096" and ctor_throws = "\<lambda>i. False" and reserve_throws = None and a = 9
             and pool0 = "\<lparr>sizeof_T = 4, Alignment = 64, m_block_size = 16, m_stride = 16,
                            m_block_count = 2, m_pool_location = Host, m_pool_data = 4096,
                            m_free_blocks = [4096, 4160]\<rparr>"
             and pool = "\<lparr>sizeof_T = 4, Alignment = 64, m_block_size = 16, m_stride = 16,
                            m_block_count = 2, m_pool_location = Host, m_pool_data = 4096,
                            m_free_blocks = []\<rparr>"
             and u = "unique_buffer_ctor 4160 16 (Some (PoolReturn 9)) Host"
             and w = "init_world\<lparr>pools := [9 \<mapsto>
                          \<lparr>sizeof_T = 4, Alignment = 64, m_block_size = 16, m_stride = 16,
                            m_block_count = 2, m_pool_location = Host, m_pool_data = 4096,
                            m_free_blocks = []\<rparr>]\<rparr>"]
  by (simp add: MemPool_ctor_def size_t_mod_def Let_def upt_conv_Cons allocate_def
      two init_world_def unique_buffer_ctor_def available_def unique_dtor_def unique_reset_def
      invoke_def release_block_def)
qed

section \<open>Every reachable state keeps the invariant\<close>

lemma owners_finite: "dom S \<subseteq> {..<max_handles} \<Longrightarrow> finite (owners S c)"
  by (rule finite_subset [of _ "{..<max_handles}"]) (auto simp: owners_def)

lemma owners_card_le: "dom S \<subseteq> {..<max_handles} \<Longrightarrow> card (owners S c) \<le> max_handles"
proof -
  assume a: "dom S \<subseteq> {..<max_handles}"
  have "owners S c \<subseteq> {..<max_handles}" using a by (auto simp: owners_def)
  then have "card (owners S c) \<le> card {..<max_handles}" by (intro card_mono) simp_all
  then show ?thesis by simp
qed

lemma owners_upd:
  "owners (S(h \<mapsto> s)) c = (if m_ctrl s = c then insert h (owners S c) else owners S c - {h})"
  by (auto simp: owners_def)

lemma owners_del: "owners (S(h := None)) c = owners S c - {h}"
  by (auto simp: owners_def)

lemma in_owners: "h \<in> owners S c \<longleftrightarrow> (\<exists>s. S h = Some s \<and> m_ctrl s = c)"
  by (simp add: owners_def)

lemma store_invI:
  assumes "dom S \<subseteq> {..<max_handles}" and "C 0 = None"
    and "\<And>h s. S h = Some s \<Longrightarrow> m_ctrl s \<noteq> 0 \<Longrightarrow> C (m_ctrl s) \<noteq> None"
    and "\<And>c cb. C c = Some cb \<Longrightarrow>
           cb_ptr cb \<noteq> 0 \<and> 0 < cb_size cb \<and> 0 < cb_ref cb \<and> cb_ref cb = card (owners S c)"
  shows "store_inv S C"
  using assms unfolding store_inv_def by blast

lemma store_inv_dom: "store_inv S C \<Longrightarrow> dom S \<subseteq> {..<max_handles}"
  by (simp add: store_inv_def)

lemma store_inv_null: "store_inv S C \<Longrightarrow> C 0 = None"
  by (simp add: store_inv_def)

lemma store_inv_live: "store_inv S C \<Longrightarrow> S h = Some s \<Longrightarrow> m_ctrl s \<noteq> 0 \<Longrightarrow> \<exists>cb. C (m_ctrl s) = Some cb"
  unfolding store_inv_def by blast

lemma store_inv_block:
  "store_inv S C \<Longrightarrow> C c = Some cb \<Longrightarrow>
   cb_ptr cb \<noteq> 0 \<and> 0 < cb_size cb \<and> 0 < cb_ref cb \<and> cb_ref cb = card (owners S c)"
  unfolding store_inv_def by blast

lemma store_inv_block_nz: "store_inv S C \<Longrightarrow> C c = Some cb \<Longrightarrow> c \<noteq> 0"
  by (metis option.distinct(1) store_inv_null)

text \<open>A slot that is free or holds an empty handle is referenced by no block.\<close>

lemma unattached_notin:
  assumes "\<forall>s. S h = Some s \<longrightarrow> m_ctrl s = 0" and "c \<noteq> 0"
  shows "h \<notin> owners S c"
  using assms by (auto simp: owners_def)

lemma store_inv_put_empty:
  assumes inv: "store_inv S C" and h: "h < max_handles"
    and un: "\<forall>s. S h = Some s \<longrightarrow> m_ctrl s = 0" and s': "m_ctrl s' = 0"
  shows "store_inv (S(h \<mapsto> s')) C"
proof (rule store_invI)
  show "dom (S(h \<mapsto> s')) \<subseteq> {..<max_handles}" using store_inv_dom [OF inv] h by auto
  show "C 0 = None" by (rule store_inv_null [OF inv])
  show "C (m_ctrl s) \<noteq> None" if "(S(h \<mapsto> s')) k = Some s" and "m_ctrl s \<noteq> 0" for k s
    using that s' store_inv_live [OF inv, of k s] by (auto split: if_splits)
  show "cb_ptr cb \<noteq> 0 \<and> 0 < cb_size cb \<and> 0 < cb_ref cb \<and> cb_ref cb = card (owners (S(h \<mapsto> s')) c)"
    if "C c = Some cb" for c cb
  proof -
    have "c \<noteq> 0" by (rule store_inv_block_nz [OF inv that])
    then have "owners (S(h \<mapsto> s')) c = owners S c"
      using s' unattached_notin [where S = S and h = h, OF un] by (auto simp: owners_upd)
    then show ?thesis using store_inv_block [OF inv that] by simp
  qed
qed

lemma store_inv_remove_empty:
  assumes inv: "store_inv S C" and un: "\<forall>s. S h = Some s \<longrightarrow> m_ctrl s = 0"
  shows "store_inv (S(h := None)) C"
proof (rule store_invI)
  show "dom (S(h := None)) \<subseteq> {..<max_handles}" using store_inv_dom [OF inv] by auto
  show "C 0 = None" by (rule store_inv_null [OF inv])
  show "C (m_ctrl s) \<noteq> None" if "(S(h := None)) k = Some s" and "m_ctrl s \<noteq> 0" for k s
    using that store_inv_live [OF inv, of k s] by (auto split: if_splits)
  show "cb_ptr cb \<noteq> 0 \<and> 0 < cb_size cb \<and> 0 < cb_ref cb \<and> cb_ref cb = card (owners (S(h := None)) c)"
    if "C c = Some cb" for c cb
  proof -
    have "c \<noteq> 0" by (rule store_inv_block_nz [OF inv that])
    then have "owners (S(h := None)) c = owners S c"
      using unattached_notin [where S = S and h = h, OF un] by (auto simp: owners_del)
    then show ?thesis using store_inv_block [OF inv that] by simp
  qed
qed

lemma store_inv_attach:
  assumes inv: "store_inv S C" and h: "h < max_handles"
    and un: "\<forall>s. S h = Some s \<longrightarrow> m_ctrl s = 0"
    and c: "c \<noteq> 0" and cb: "C c = Some cb" and s': "m_ctrl s' = c"
  shows "store_inv (S(h \<mapsto> s')) (C(c \<mapsto> cb\<lparr>cb_ref := cb_ref cb + 1\<rparr>))"
proof (rule store_invI)
  show "dom (S(h \<mapsto> s')) \<subseteq> {..<max_handles}" using store_inv_dom [OF inv] h by auto
  show "(C(c \<mapsto> cb\<lparr>cb_ref := cb_ref cb + 1\<rparr>)) 0 = None" using store_inv_null [OF inv] c by simp
  show "(C(c \<mapsto> cb\<lparr>cb_ref := cb_ref cb + 1\<rparr>)) (m_ctrl s) \<noteq> None"
    if "(S(h \<mapsto> s')) k = Some s" and "m_ctrl s \<noteq> 0" for k s
    using that s' store_inv_live [OF inv, of k s] by (auto split: if_splits)
  show "cb_ptr b \<noteq> 0 \<and> 0 < cb_size b \<and> 0 < cb_ref b \<and> cb_ref b = card (owners (S(h \<mapsto> s')) c')"
    if "(C(c \<mapsto> cb\<lparr>cb_ref := cb_ref cb + 1\<rparr>)) c' = Some b" for c' b
  proof (cases "c' = c")
    case True
    have "h \<notin> owners S c" by (rule unattached_notin [where S = S and h = h, OF un c])
    then have "card (owners (S(h \<mapsto> s')) c) = card (owners S c) + 1"
      using s' owners_finite [OF store_inv_dom [OF inv], of c] by (simp add: owners_upd)
    then show ?thesis using True that store_inv_block [OF inv cb] by auto
  next
    case False
    then have b: "C c' = Some b" using that by simp
    then have "c' \<noteq> 0" by (rule store_inv_block_nz [OF inv])
    then have "owners (S(h \<mapsto> s')) c' = owners S c'"
      using False s' unattached_notin [where S = S and h = h, OF un] by (auto simp: owners_upd)
    then show ?thesis using store_inv_block [OF inv b] by simp
  qed
qed

lemma store_inv_new:
  assumes inv: "store_inv S C" and h: "h < max_handles"
    and un: "\<forall>s. S h = Some s \<longrightarrow> m_ctrl s = 0"
    and a: "a \<noteq> 0" and fresh: "C a = None" and s': "m_ctrl s' = a"
    and p: "p \<noteq> 0" and n: "0 < n"
  shows "store_inv (S(h \<mapsto> s'))
           (C(a \<mapsto> \<lparr>cb_ref = 1, cb_ptr = p, cb_size = n, cb_deleter = d, cb_location = loc\<rparr>))"
    (is "store_inv ?S ?C")
proof (rule store_invI)
  show "dom ?S \<subseteq> {..<max_handles}" using store_inv_dom [OF inv] h by auto
  show "?C 0 = None" using store_inv_null [OF inv] a by simp
  show "?C (m_ctrl s) \<noteq> None" if "?S k = Some s" and "m_ctrl s \<noteq> 0" for k s
    using that s' store_inv_live [OF inv, of k s] by (auto split: if_splits)
  show "cb_ptr b \<noteq> 0 \<and> 0 < cb_size b \<and> 0 < cb_ref b \<and> cb_ref b = card (owners ?S c')"
    if "?C c' = Some b" for c' b
  proof (cases "c' = a")
    case True
    have "owners S a = {}"
    proof (rule ccontr)
      assume "owners S a \<noteq> {}"
      then obtain k t where kt: "S k = Some t" "m_ctrl t = a" by (auto simp: owners_def)
      with store_inv_live [OF inv kt(1)] a fresh show False by auto
    qed
    then have "owners ?S a = {h}" using s' by (simp add: owners_upd)
    then show ?thesis using True that p n by auto
  next
    case False
    then have b: "C c' = Some b" using that by simp
    then have "c' \<noteq> 0" by (rule store_inv_block_nz [OF inv])
    then have "owners ?S c' = owners S c'"
      using False s' unattached_notin [where S = S and h = h, OF un] by (auto simp: owners_upd)
    then show ?thesis using store_inv_block [OF inv b] by simp
  qed
qed

lemma store_inv_detach:
  assumes inv: "store_inv S C" and sh: "S h = Some s" and c: "m_ctrl s = c" "c \<noteq> 0"
    and cb: "C c = Some cb" and s': "m_ctrl s' = 0"
  shows "store_inv (S(h \<mapsto> s'))
           (if cb_ref cb = 1 then C(c := None) else C(c \<mapsto> cb\<lparr>cb_ref := cb_ref cb - 1\<rparr>))"
    (is "store_inv ?S ?C")
proof (rule store_invI)
  have hin: "h \<in> owners S c" using sh c by (auto simp: owners_def)
  have fin: "finite (owners S c)" by (rule owners_finite [OF store_inv_dom [OF inv]])
  have cnt: "cb_ref cb = card (owners S c)" using store_inv_block [OF inv cb] by simp
  have r: "owners ?S c' = owners S c' - {h}" if "c' \<noteq> 0" for c'
    using that s' by (auto simp: owners_upd)
  have r0: "owners ?S c' = owners S c'" if "c' \<noteq> c" "c' \<noteq> 0" for c'
    using that sh c s' by (auto simp: owners_upd owners_def)
  show "dom ?S \<subseteq> {..<max_handles}" using store_inv_dom [OF inv] sh by auto
  show "?C 0 = None" using store_inv_null [OF inv] c by simp
  show "?C (m_ctrl t) \<noteq> None" if k: "?S k = Some t" and t: "m_ctrl t \<noteq> 0" for k t
  proof -
    have kh: "k \<noteq> h" using k t s' by auto
    then have sk: "S k = Some t" using k by simp
    show ?thesis
    proof (cases "m_ctrl t = c")
      case True
      then have "k \<in> owners S c" using sk by (auto simp: owners_def)
      then have "card (owners S c) \<noteq> 1" using hin kh fin
        by (metis card_1_singletonE singletonD)
      then show ?thesis using True cnt by simp
    next
      case False
      then show ?thesis using store_inv_live [OF inv sk t] by auto
    qed
  qed
  show "cb_ptr b \<noteq> 0 \<and> 0 < cb_size b \<and> 0 < cb_ref b \<and> cb_ref b = card (owners ?S c')"
    if "?C c' = Some b" for c' b
  proof (cases "c' = c")
    case True
    then have ne: "cb_ref cb \<noteq> 1" and b: "b = cb\<lparr>cb_ref := cb_ref cb - 1\<rparr>"
      using that by (auto split: if_splits)
    have "card (owners ?S c) = card (owners S c) - 1" using hin fin c(2) by (simp add: r)
    moreover have "2 \<le> cb_ref cb" using ne store_inv_block [OF inv cb] by auto
    ultimately show ?thesis using True b cnt store_inv_block [OF inv cb] by auto
  next
    case False
    then have b: "C c' = Some b" using that by (auto split: if_splits)
    then have "c' \<noteq> 0" by (rule store_inv_block_nz [OF inv])
    then show ?thesis using store_inv_block [OF inv b] r0 [OF False] by simp
  qed
qed


lemma store_inv_move:
  assumes inv: "store_inv S C" and src: "S src = Some s" and h: "h < max_handles"
    and un: "\<forall>t. S h = Some t \<longrightarrow> m_ctrl t = 0" and ne: "h \<noteq> src"
    and s': "m_ctrl s' = m_ctrl s" and s'': "m_ctrl s'' = 0"
  shows "store_inv (S(h \<mapsto> s', src \<mapsto> s'')) C"
proof (cases "m_ctrl s = 0")
  case True
  have 1: "store_inv (S(h \<mapsto> s')) C" using store_inv_put_empty [OF inv h un] s' True by simp
  have "\<forall>t. (S(h \<mapsto> s')) src = Some t \<longrightarrow> m_ctrl t = 0" using src True ne by simp
  moreover have "src < max_handles" using store_inv_dom [OF inv] src by auto
  ultimately show ?thesis using store_inv_put_empty [OF 1 _ _ s''] by blast
next
  case False
  obtain cb where cb: "C (m_ctrl s) = Some cb" using store_inv_live [OF inv src False] by blast
  let ?cb1 = "cb\<lparr>cb_ref := cb_ref cb + 1\<rparr>"
  have 1: "store_inv (S(h \<mapsto> s')) (C(m_ctrl s \<mapsto> ?cb1))"
    by (rule store_inv_attach [OF inv h un False cb s'])
  have 2: "(S(h \<mapsto> s')) src = Some s" using src ne by simp
  have 3: "(C(m_ctrl s \<mapsto> ?cb1)) (m_ctrl s) = Some ?cb1" by simp
  have pos: "0 < cb_ref cb" using store_inv_block [OF inv cb] by simp
  have "store_inv (S(h \<mapsto> s', src \<mapsto> s''))
          (if cb_ref ?cb1 = 1 then (C(m_ctrl s \<mapsto> ?cb1))(m_ctrl s := None)
           else (C(m_ctrl s \<mapsto> ?cb1))(m_ctrl s \<mapsto> ?cb1\<lparr>cb_ref := cb_ref ?cb1 - 1\<rparr>))"
    by (rule store_inv_detach [OF 1 2 refl False 3 s''])
  moreover have "(C(m_ctrl s \<mapsto> ?cb1))(m_ctrl s \<mapsto> ?cb1\<lparr>cb_ref := cb_ref ?cb1 - 1\<rparr>) = C"
    using cb by (simp add: map_upd_triv)
  ultimately show ?thesis using pos by simp
qed

lemma store_inv_swap:
  assumes inv: "store_inv S C" and a: "S a = Some x" and b: "S b = Some y"
    and x': "m_ctrl x' = m_ctrl y" and y': "m_ctrl y' = m_ctrl x"
  shows "store_inv (S(a \<mapsto> x', b \<mapsto> y')) C" (is "store_inv ?S C")
proof (rule store_invI)
  let ?f = "\<lambda>h. if h = a then b else if h = b then a else h"
  have inj: "inj ?f" by (auto simp: inj_def)
  have im: "owners ?S c = ?f ` owners S c" for c
  proof (rule set_eqI)
    fix h
    show "h \<in> owners ?S c \<longleftrightarrow> h \<in> ?f ` owners S c"
      using a b x' y' by (auto simp: owners_def image_iff split: if_splits)
  qed
  have cd: "card (owners ?S c) = card (owners S c)" for c
    unfolding im by (rule card_image) (rule inj_on_subset [OF inj], simp)
  show "dom ?S \<subseteq> {..<max_handles}" using store_inv_dom [OF inv] a b by auto
  show "C 0 = None" by (rule store_inv_null [OF inv])
  show "C (m_ctrl t) \<noteq> None" if "?S k = Some t" and "m_ctrl t \<noteq> 0" for k t
    using that x' y' store_inv_live [OF inv a] store_inv_live [OF inv b] store_inv_live [OF inv, of k t]
    by (auto split: if_splits)
  show "cb_ptr cb \<noteq> 0 \<and> 0 < cb_size cb \<and> 0 < cb_ref cb \<and> cb_ref cb = card (owners ?S c)"
    if "C c = Some cb" for c cb
    using store_inv_block [OF inv that] by (simp add: cd)
qed

lemma ref_bound:
  assumes "store_inv S C" and "C c = Some cb"
  shows "cb_ref cb + 1 < size_t_mod"
proof -
  have "cb_ref cb \<le> max_handles"
    using store_inv_block [OF assms] owners_card_le [OF store_inv_dom [OF assms(1)], of c] by simp
  then show ?thesis by (simp add: max_handles_def size_t_mod_def)
qed



lemma fetch_add_live:
  assumes "ctrls w c = Some cb" and "cb_ref cb + 1 < size_t_mod"
  shows "sbufs (snd (fetch_add c w)) = sbufs w
         \<and> ctrls (snd (fetch_add c w)) = (ctrls w)(c \<mapsto> cb\<lparr>cb_ref := cb_ref cb + 1\<rparr>)"
  using assms by (simp add: fetch_add_def)

lemma release_ctrl_empty: "m_ctrl s = 0 \<Longrightarrow> release_ctrl s w = (s, w)"
  by (simp add: release_ctrl_def)

lemma release_ctrl_live:
  assumes "m_ctrl s \<noteq> 0" and "ctrls w (m_ctrl s) = Some cb"
    and "0 < cb_ref cb" and "cb_ref cb < size_t_mod"
  shows "m_ctrl (fst (release_ctrl s w)) = 0
         \<and> sbufs (snd (release_ctrl s w)) = sbufs w
         \<and> ctrls (snd (release_ctrl s w)) =
             (if cb_ref cb = 1 then (ctrls w)(m_ctrl s := None)
              else (ctrls w)(m_ctrl s \<mapsto> cb\<lparr>cb_ref := cb_ref cb - 1\<rparr>))"
proof -
  have m: "(cb_ref cb + size_t_mod - Suc 0) mod size_t_mod = cb_ref cb - Suc 0"
    using mod_pred_small [of "cb_ref cb"] assms(3,4) by simp
  show ?thesis
    using assms
    by (auto simp add: release_ctrl_def fetch_sub_def Let_def m sbufs_invoke
        ctrls_invoke split: option.splits)
qed

lemma shared_release_live:
  assumes "m_ctrl s \<noteq> 0" and "ctrls w (m_ctrl s) = Some cb"
  shows "case shared_release s w of (r, s', w') \<Rightarrow>
           sbufs w' = sbufs w
           \<and> (if cb_ref cb = 1 then m_ctrl s' = 0 \<and> ctrls w' = (ctrls w)(m_ctrl s := None)
               else s' = s \<and> ctrls w' = ctrls w)"
  using assms
  by (auto simp add: shared_release_def compare_exchange_strong_def Let_def)

lemma world_inv_release_ctrl:
  assumes inv: "world_inv w" and sh: "sbufs w h = Some s"
    and rc: "release_ctrl s w = (s1, w1)" and s': "m_ctrl s' = 0"
  shows "sbufs w1 = sbufs w \<and> m_ctrl s1 = 0 \<and> store_inv ((sbufs w)(h \<mapsto> s')) (ctrls w1)"
proof (cases "m_ctrl s = 0")
  case True
  then have "s1 = s" "w1 = w" using rc by (simp_all add: release_ctrl_empty)
  moreover have "store_inv ((sbufs w)(h \<mapsto> s')) (ctrls w)"
  proof (rule store_inv_put_empty [OF _ _ _ s'])
    show "store_inv (sbufs w) (ctrls w)" using inv by (simp add: world_inv_def)
    show "h < max_handles" using store_inv_dom [of "sbufs w" "ctrls w"] inv sh by (auto simp: world_inv_def)
    show "\<forall>t. sbufs w h = Some t \<longrightarrow> m_ctrl t = 0" using sh True by simp
  qed
  ultimately show ?thesis using True by simp
next
  case False
  have i: "store_inv (sbufs w) (ctrls w)" using inv by (simp add: world_inv_def)
  obtain cb where cb: "ctrls w (m_ctrl s) = Some cb" using store_inv_live [OF i sh False] by blast
  have pos: "0 < cb_ref cb" using store_inv_block [OF i cb] by simp
  have lt: "cb_ref cb < size_t_mod" using ref_bound [OF i cb] by simp
  from release_ctrl_live [OF False cb pos lt] rc
  have 1: "m_ctrl s1 = 0" "sbufs w1 = sbufs w"
    "ctrls w1 = (if cb_ref cb = 1 then (ctrls w)(m_ctrl s := None)
                 else (ctrls w)(m_ctrl s \<mapsto> cb\<lparr>cb_ref := cb_ref cb - 1\<rparr>))"
    by simp_all
  show ?thesis using store_inv_detach [OF i sh refl False cb s'] 1 by simp
qed


lemma world_invD: "world_inv w \<Longrightarrow> store_inv (sbufs w) (ctrls w)"
  by (simp add: world_inv_def)

lemma fresh_unattached: "fresh_slot w h \<Longrightarrow> \<forall>t. sbufs w h = Some t \<longrightarrow> m_ctrl t = 0"
  by (simp add: fresh_slot_def)

lemma live_slot: "world_inv w \<Longrightarrow> sbufs w h = Some s \<Longrightarrow> h < max_handles"
  using store_inv_dom [of "sbufs w" "ctrls w"] by (auto simp: world_inv_def)

lemma world_inv_place_ctor:
  assumes inv: "world_inv w" and fresh: "fresh_slot w h" and ok: "new_ok w new_answer"
  shows "world_inv (place h (shared_buffer_ctor p n d loc new_answer w))"
proof -
  have h: "h < max_handles" using fresh by (simp add: fresh_slot_def)
  note un = fresh_unattached [OF fresh]
  show ?thesis
  proof (cases "p = 0 \<or> n = 0")
    case True
    then have "place h (shared_buffer_ctor p n d loc new_answer w)
                 = w\<lparr>sbufs := (sbufs w)(h \<mapsto> \<lparr>m_ctrl = 0\<rparr>)\<rparr>"
      by (auto simp add: place_def shared_buffer_ctor_def)
    then show ?thesis using store_inv_put_empty [OF world_invD [OF inv] h un, of "\<lparr>m_ctrl = 0\<rparr>"]
      by (simp add: world_inv_def)
  next
    case False
    then have pn: "p \<noteq> 0" "0 < n" by simp_all
    show ?thesis
    proof (cases new_answer)
      case None
      then show ?thesis using False inv by (simp add: place_def shared_buffer_ctor_def)
    next
      case (Some a)
      then have a: "a \<noteq> 0" "ctrls w a = None" using ok by (simp_all add: new_ok_def)
      have "store_inv ((sbufs w)(h \<mapsto> \<lparr>m_ctrl = a\<rparr>))
              ((ctrls w)(a \<mapsto> \<lparr>cb_ref = 1, cb_ptr = p, cb_size = n, cb_deleter = d,
                                cb_location = loc\<rparr>))"
        by (rule store_inv_new [OF world_invD [OF inv] h un a _ pn]) simp
      then show ?thesis using False Some
        by (simp add: place_def shared_buffer_ctor_def world_inv_def)
    qed
  qed
qed

lemma place_from_released:
  "place h (shared_buffer_from_released rb new_answer w)
     = place h (shared_buffer_ctor (rb_ptr rb) (rb_count rb) (rb_deleter rb) (rb_location rb)
                  new_answer w)"
  by (simp add: shared_buffer_from_released_def place_def split: prod.splits sum.splits)

lemma place_from_unique:
  "(case shared_buffer_from_unique u_b new_answer w of (r, u', w') \<Rightarrow> place h (r, w'))
     = place h (shared_buffer_from_released (fst (unique_release u_b)) new_answer w)"
  by (simp add: shared_buffer_from_unique_def Let_def split: prod.splits)

lemma world_inv_copy_construct:
  assumes inv: "world_inv w" and src: "sbufs w src = Some other" and fresh: "fresh_slot w h"
  shows "world_inv (let (s, w') = shared_copy_ctor other w in w'\<lparr>sbufs := (sbufs w')(h \<mapsto> s)\<rparr>)"
proof -
  have h: "h < max_handles" using fresh by (simp add: fresh_slot_def)
  note un = fresh_unattached [OF fresh]
  note i = world_invD [OF inv]
  show ?thesis
  proof (cases "m_ctrl other = 0")
    case True
    then show ?thesis
      using store_inv_put_empty [OF i h un, of "\<lparr>m_ctrl = m_ctrl other\<rparr>"]
      by (simp add: shared_copy_ctor_def world_inv_def)
  next
    case False
    obtain cb where cb: "ctrls w (m_ctrl other) = Some cb" using store_inv_live [OF i src False] by blast
    note fa = fetch_add_live [OF cb ref_bound [OF i cb]]
    have "store_inv ((sbufs w)(h \<mapsto> \<lparr>m_ctrl = m_ctrl other\<rparr>))
               ((ctrls w)(m_ctrl other \<mapsto> cb\<lparr>cb_ref := cb_ref cb + 1\<rparr>))"
      by (rule store_inv_attach [OF i h un False cb]) simp
    then show ?thesis using False fa by (simp add: shared_copy_ctor_def world_inv_def)
  qed
qed

lemma world_inv_move_construct:
  assumes inv: "world_inv w" and src: "sbufs w src = Some other" and fresh: "fresh_slot w h"
  shows "world_inv (let (s, other') = shared_move_ctor other
               in w\<lparr>sbufs := (sbufs w)(h \<mapsto> s, src \<mapsto> other')\<rparr>)"
proof -
  have h: "h < max_handles" using fresh by (simp add: fresh_slot_def)
  have ne: "h \<noteq> src" using fresh src by (auto simp: fresh_slot_def)
  have "store_inv ((sbufs w)(h \<mapsto> \<lparr>m_ctrl = m_ctrl other\<rparr>, src \<mapsto> other\<lparr>m_ctrl := 0\<rparr>)) (ctrls w)"
    by (rule store_inv_move [OF world_invD [OF inv] src h fresh_unattached [OF fresh] ne]) simp_all
  then show ?thesis by (simp add: shared_move_ctor_def world_inv_def)
qed

lemma world_inv_release:
  assumes inv: "world_inv w" and sh: "sbufs w h = Some s"
  shows "world_inv (let (r, s', w') = shared_release s w in w'\<lparr>sbufs := (sbufs w')(h \<mapsto> s')\<rparr>)"
proof (cases "m_ctrl s = 0")
  case True
  have "(sbufs w)(h \<mapsto> s) = sbufs w" using sh by (simp add: map_upd_triv)
  then show ?thesis using True inv by (simp add: shared_release_def world_inv_def)
next
  case False
  note i = world_invD [OF inv]
  obtain cb where cb: "ctrls w (m_ctrl s) = Some cb" using store_inv_live [OF i sh False] by blast
  obtain r s' w' where rel: "shared_release s w = (r, s', w')" by (cases "shared_release s w")
  from shared_release_live [OF False cb] rel
  have sb: "sbufs w' = sbufs w"
    and eff: "if cb_ref cb = 1 then m_ctrl s' = 0 \<and> ctrls w' = (ctrls w)(m_ctrl s := None)
              else s' = s \<and> ctrls w' = ctrls w"
    by simp_all
  have "store_inv ((sbufs w)(h \<mapsto> s')) (ctrls w')"
  proof (cases "cb_ref cb = 1")
    case True
    then have "m_ctrl s' = 0" "ctrls w' = (ctrls w)(m_ctrl s := None)" using eff by simp_all
    then show ?thesis using store_inv_detach [OF i sh refl False cb, of s'] True by simp
  next
    case False
    then have "s' = s" "ctrls w' = ctrls w" using eff by simp_all
    moreover have "(sbufs w)(h \<mapsto> s) = sbufs w" using sh by (simp add: map_upd_triv)
    ultimately show ?thesis using i by simp
  qed
  then show ?thesis using rel sb by (simp add: world_inv_def)
qed

lemma world_inv_reset:
  assumes inv: "world_inv w" and sh: "sbufs w h = Some s"
  shows "world_inv (let (s', w') = shared_reset s w in w'\<lparr>sbufs := (sbufs w')(h \<mapsto> s')\<rparr>)"
proof -
  obtain s1 w1 where rc: "release_ctrl s w = (s1, w1)" by (cases "release_ctrl s w")
  from world_inv_release_ctrl [OF inv sh rc, of "s1\<lparr>m_ctrl := 0\<rparr>"]
  show ?thesis using rc by (simp add: shared_reset_def world_inv_def)
qed

lemma world_inv_destroy:
  assumes inv: "world_inv w" and sh: "sbufs w h = Some s"
  shows "world_inv (let w' = shared_dtor s w in w'\<lparr>sbufs := (sbufs w')(h := None)\<rparr>)"
proof -
  obtain s1 w1 where rc: "release_ctrl s w = (s1, w1)" by (cases "release_ctrl s w")
  from world_inv_release_ctrl [OF inv sh rc, of "\<lparr>m_ctrl = 0\<rparr>"]
  have sb: "sbufs w1 = sbufs w" and 1: "store_inv ((sbufs w)(h \<mapsto> \<lparr>m_ctrl = 0\<rparr>)) (ctrls w1)"
    by simp_all
  have "store_inv (((sbufs w)(h \<mapsto> \<lparr>m_ctrl = 0\<rparr>))(h := None)) (ctrls w1)"
    by (rule store_inv_remove_empty [OF 1]) simp
  then show ?thesis using rc sb by (simp add: shared_dtor_def world_inv_def)
qed

lemma world_inv_swap:
  assumes inv: "world_inv w" and a: "sbufs w a = Some x" and b: "sbufs w b = Some y"
  shows "world_inv (let (x', y') = shared_swap x y in w\<lparr>sbufs := (sbufs w)(a \<mapsto> x', b \<mapsto> y')\<rparr>)"
  using store_inv_swap [OF world_invD [OF inv] a b, of "x\<lparr>m_ctrl := m_ctrl y\<rparr>" "y\<lparr>m_ctrl := m_ctrl x\<rparr>"]
  by (simp add: shared_swap_def world_inv_def)


lemma store_inv_same:
  assumes inv: "store_inv S C" and sh: "S h = Some s" and s': "m_ctrl s' = m_ctrl s"
  shows "store_inv (S(h \<mapsto> s')) C"
proof -
  have r: "owners (S(h \<mapsto> s')) c = owners S c" for c
    using sh s' by (auto simp: owners_def)
  have d: "dom (S(h \<mapsto> s')) = dom S" using sh by auto
  have "\<exists>t. S k = Some t \<and> m_ctrl t = m_ctrl u" if "(S(h \<mapsto> s')) k = Some u" for k u
    using that sh s' by (auto split: if_splits)
  then show ?thesis using inv unfolding store_inv_def r d by metis
qed

lemma release_ctrl_fst: "m_ctrl (fst (release_ctrl s w)) = 0"
  by (simp add: release_ctrl_def Let_def split: prod.splits option.splits)

lemma world_inv_move_assign:
  assumes inv: "world_inv w" and t: "sbufs w this = Some t" and oth: "sbufs w other = Some oth"
  shows "world_inv (shared_move_assign this other w)"
proof (cases "this = other")
  case True
  then show ?thesis using inv by (simp add: shared_move_assign_def)
next
  case False
  obtain t1 w1 where rc: "release_ctrl t w = (t1, w1)" by (cases "release_ctrl t w")
  have t1: "m_ctrl t1 = 0" using release_ctrl_fst [of t w] rc by simp
  from world_inv_release_ctrl [OF inv t rc t1]
  have sb: "sbufs w1 = sbufs w"
    and 1: "store_inv ((sbufs w)(this \<mapsto> t1)) (ctrls w1)" by simp_all
  have "store_inv (((sbufs w)(this \<mapsto> t1))(this \<mapsto> t1\<lparr>m_ctrl := m_ctrl oth\<rparr>,
                                         other \<mapsto> oth\<lparr>m_ctrl := 0\<rparr>)) (ctrls w1)"
  proof (rule store_inv_move [OF 1])
    show "((sbufs w)(this \<mapsto> t1)) other = Some oth" using oth False by simp
    show "this < max_handles" by (rule live_slot [OF inv t])
    show "\<forall>u. ((sbufs w)(this \<mapsto> t1)) this = Some u \<longrightarrow> m_ctrl u = 0" using t1 by simp
    show "this \<noteq> other" by (rule False)
  qed simp_all
  then show ?thesis using False t oth rc sb by (simp add: shared_move_assign_def world_inv_def)
qed

lemma world_inv_copy_assign:
  assumes inv: "world_inv w" and t: "sbufs w this = Some t" and oth: "sbufs w other = Some oth"
  shows "world_inv (shared_copy_assign this other w)"
proof (cases "this = other")
  case True
  then show ?thesis using inv by (simp add: shared_copy_assign_def)
next
  case ne: False
  note i = world_invD [OF inv]
  have hl: "this < max_handles" by (rule live_slot [OF inv t])
  show ?thesis
  proof (cases "m_ctrl oth = 0")
    case True
    obtain t1 w1 where rc: "release_ctrl t w = (t1, w1)" by (cases "release_ctrl t w")
    from world_inv_release_ctrl [OF inv t rc, of "t1\<lparr>m_ctrl := m_ctrl oth\<rparr>"] True
    show ?thesis using ne t oth rc by (simp add: shared_copy_assign_def world_inv_def)
  next
    case cn: False
    obtain cbn where cbn: "ctrls w (m_ctrl oth) = Some cbn"
      using store_inv_live [OF i oth cn] by blast
    let ?w1 = "snd (fetch_add (m_ctrl oth) w)"
    let ?cbn1 = "cbn\<lparr>cb_ref := cb_ref cbn + 1\<rparr>"
    note bn = ref_bound [OF i cbn]
    from fetch_add_live [OF cbn bn]
    have sb1: "sbufs ?w1 = sbufs w"
      and c1: "ctrls ?w1 = (ctrls w)(m_ctrl oth \<mapsto> ?cbn1)" by simp_all
    obtain t1 w2 where rc: "release_ctrl t ?w1 = (t1, w2)" by (cases "release_ctrl t ?w1")
    have res: "shared_copy_assign this other w
                 = w2\<lparr>sbufs := (sbufs w2)(this \<mapsto> t1\<lparr>m_ctrl := m_ctrl oth\<rparr>)\<rparr>"
      using ne t oth cn rc by (simp add: shared_copy_assign_def)
    have "sbufs w2 = sbufs w
          \<and> store_inv ((sbufs w)(this \<mapsto> t1\<lparr>m_ctrl := m_ctrl oth\<rparr>)) (ctrls w2)"
    proof (cases "m_ctrl t = 0")
      case True
      then have "t1 = t" "w2 = ?w1" using rc by (simp_all add: release_ctrl_empty)
      moreover have "store_inv ((sbufs w)(this \<mapsto> t\<lparr>m_ctrl := m_ctrl oth\<rparr>))
                       ((ctrls w)(m_ctrl oth \<mapsto> ?cbn1))"
        by (rule store_inv_attach [OF i hl _ cn cbn]) (use t True in simp_all)
      ultimately show ?thesis using sb1 c1 by simp
    next
      case co: False
      show ?thesis
      proof (cases "m_ctrl t = m_ctrl oth")
        case True
        have live1: "ctrls ?w1 (m_ctrl t) = Some ?cbn1" using c1 True by simp
        have "0 < cb_ref ?cbn1" "cb_ref ?cbn1 < size_t_mod" using bn by simp_all
        from release_ctrl_live [OF co live1 this] rc
        have "sbufs w2 = sbufs ?w1"
          and "ctrls w2 = (ctrls ?w1)(m_ctrl t \<mapsto> ?cbn1\<lparr>cb_ref := cb_ref ?cbn1 - 1\<rparr>)"
          using store_inv_block [OF i cbn] by simp_all
        then have "sbufs w2 = sbufs w" and "ctrls w2 = ctrls w"
          using sb1 c1 True cbn by (simp_all add: map_upd_triv)
        moreover have "store_inv ((sbufs w)(this \<mapsto> t1\<lparr>m_ctrl := m_ctrl oth\<rparr>)) (ctrls w)"
          by (rule store_inv_same [OF i t]) (simp add: True)
        ultimately show ?thesis by simp
      next
        case False
        obtain cbo where cbo: "ctrls w (m_ctrl t) = Some cbo" using store_inv_live [OF i t co] by blast
        have live1: "ctrls ?w1 (m_ctrl t) = Some cbo" using c1 False cbo by simp
        have "0 < cb_ref cbo" using store_inv_block [OF i cbo] by simp
        moreover have "cb_ref cbo < size_t_mod" using ref_bound [OF i cbo] by simp
        ultimately have
          "sbufs w2 = sbufs ?w1"
          "ctrls w2 = (if cb_ref cbo = 1 then (ctrls ?w1)(m_ctrl t := None)
                       else (ctrls ?w1)(m_ctrl t \<mapsto> cbo\<lparr>cb_ref := cb_ref cbo - 1\<rparr>))"
          using release_ctrl_live [OF co live1] rc by simp_all
        then have sb2: "sbufs w2 = sbufs w"
          and c2: "ctrls w2 =
                     (if cb_ref cbo = 1 then (ctrls w)(m_ctrl t := None)
                      else (ctrls w)(m_ctrl t \<mapsto> cbo\<lparr>cb_ref := cb_ref cbo - 1\<rparr>))
                     (m_ctrl oth \<mapsto> ?cbn1)"
          using sb1 c1 False by (auto simp add: fun_upd_twist)
        let ?Cd = "if cb_ref cbo = 1 then (ctrls w)(m_ctrl t := None)
                   else (ctrls w)(m_ctrl t \<mapsto> cbo\<lparr>cb_ref := cb_ref cbo - 1\<rparr>)"
        have d: "store_inv ((sbufs w)(this \<mapsto> \<lparr>m_ctrl = 0\<rparr>)) ?Cd"
          by (rule store_inv_detach [OF i t refl co cbo]) simp
        have lv: "?Cd (m_ctrl oth) = Some cbn" using cbn False by simp
        have "store_inv (((sbufs w)(this \<mapsto> \<lparr>m_ctrl = 0\<rparr>))(this \<mapsto> t1\<lparr>m_ctrl := m_ctrl oth\<rparr>))
                (?Cd(m_ctrl oth \<mapsto> ?cbn1))"
          by (rule store_inv_attach [OF d hl _ cn lv]) simp_all
        then show ?thesis using sb2 c2 by simp
      qed
    qed
    then show ?thesis using res by (simp add: world_inv_def)
  qed
qed

lemma world_inv_exec: "world_inv w \<Longrightarrow> world_inv (exec c w)"
proof (cases c)
  case (DefaultConstruct h)
  assume inv: "world_inv w"
  show ?thesis
  proof (cases "fresh_slot w h")
    case True
    then have h: "h < max_handles" by (simp add: fresh_slot_def)
    from store_inv_put_empty [OF world_invD [OF inv] h fresh_unattached [OF True], of shared_buffer_default]
    show ?thesis using True DefaultConstruct by (simp add: world_inv_def shared_buffer_default_def)
  next
    case False
    then show ?thesis using inv DefaultConstruct by simp
  qed
next
  case (Construct h p n d loc na)
  assume "world_inv w"
  then show ?thesis using Construct world_inv_place_ctor by simp
next
  case (ConstructReleased h rb na)
  assume "world_inv w"
  then show ?thesis using ConstructReleased world_inv_place_ctor by (simp add: place_from_released)
next
  case (ConstructUnique h u na)
  assume "world_inv w"
  then show ?thesis using ConstructUnique world_inv_place_ctor
    by (simp add: place_from_unique place_from_released)
next
  case (CopyConstruct h src)
  assume "world_inv w"
  then show ?thesis using CopyConstruct world_inv_copy_construct by (simp split: option.splits)
next
  case (CopyAssign this other)
  assume "world_inv w"
  then show ?thesis using CopyAssign world_inv_copy_assign by auto
next
  case (MoveConstruct h src)
  assume "world_inv w"
  then show ?thesis using MoveConstruct world_inv_move_construct by (simp split: option.splits)
next
  case (MoveAssign this other)
  assume "world_inv w"
  then show ?thesis using MoveAssign world_inv_move_assign by auto
next
  case (Release h)
  assume "world_inv w"
  then show ?thesis using Release world_inv_release by (simp split: option.splits)
next
  case (Reset h)
  assume "world_inv w"
  then show ?thesis using Reset world_inv_reset by (simp split: option.splits)
next
  case (Swap a b)
  assume "world_inv w"
  then show ?thesis using Swap world_inv_swap by (simp split: option.splits)
next
  case (Destroy h)
  assume "world_inv w"
  then show ?thesis using Destroy world_inv_destroy by (simp split: option.splits)
qed

lemma world_inv_run: "world_inv w \<Longrightarrow> world_inv (run cs w)"
  by (induction cs arbitrary: w) (simp_all add: world_inv_exec)

lemma world_inv_init: "world_inv init_world"
  by (simp add: world_inv_def store_inv_def init_world_def)


lemma reachable_block_bounds:
  assumes "sbufs (run cmds init_world) h = Some s" and "m_ctrl s \<noteq> 0"
  shows "case ctrls (run cmds init_world) (m_ctrl s) of
           None \<Rightarrow> False
         | Some cb \<Rightarrow> 1 \<le> cb_ref cb \<and> cb_ref cb + 1 < size_t_mod"
proof -
  let ?w = "run cmds init_world"
  have i: "store_inv (sbufs ?w) (ctrls ?w)"
    by (rule world_invD [OF world_inv_run [OF world_inv_init]])
  obtain cb where cb: "ctrls ?w (m_ctrl s) = Some cb"
    using store_inv_live [OF i assms] by blast
  show ?thesis using cb store_inv_block [OF i cb] ref_bound [OF i cb] by simp
qed

text \<open>
  Claim C10. In the state reached from the starting state by any sequence of commands
  (construction in every form, copy, move, assignment, release, reset, swap, destruction),
  every live shared handle with a non-null \<open>ctrl_\<close> points to a live control block whose
  pointer is non-null, whose size is positive and whose counter is positive. So every
  observer is defined, and \<open>empty()\<close>, the negated boolean conversion,
  \<open>data() == nullptr\<close> and \<open>use_count() == 0\<close> have the same truth value.
\<close>

theorem shared_handle_observers_agree:
  assumes "sbufs (run cmds init_world) h = Some s"
  shows "let w = run cmds init_world
         in (shared_bool s \<longrightarrow>
               (case ctrls w (m_ctrl s) of
                  None \<Rightarrow> False
                | Some cb \<Rightarrow> cb_ptr cb \<noteq> 0 \<and> 0 < cb_size cb \<and> 0 < cb_ref cb))
            \<and> shared_empty s w = Some (\<not> shared_bool s)
            \<and> (case shared_data s w of None \<Rightarrow> False | Some p \<Rightarrow> (p = 0) = (\<not> shared_bool s))
            \<and> (case use_count s w of None \<Rightarrow> False | Some k \<Rightarrow> (k = 0) = (\<not> shared_bool s))"
proof -
  let ?w = "run cmds init_world"
  have i: "store_inv (sbufs ?w) (ctrls ?w)" by (rule world_invD [OF world_inv_run [OF world_inv_init]])
  show ?thesis
  proof (cases "m_ctrl s = 0")
    case True
    then show ?thesis
      by (simp add: shared_bool_def shared_empty_def shared_size_def shared_data_def use_count_def)
  next
    case False
    obtain cb where cb: "ctrls ?w (m_ctrl s) = Some cb" using store_inv_live [OF i assms False] by blast
    from store_inv_block [OF i cb] have "cb_ptr cb \<noteq> 0" "0 < cb_size cb" "0 < cb_ref cb" by simp_all
    then show ?thesis
      using False cb
      by (simp add: shared_bool_def shared_empty_def shared_size_def shared_data_def use_count_def)
  qed
qed

theorem shared_handle_observers_agree_witness:
  "let cmds = [Construct 1 4096 5 (Some (UserDeleter 1)) Host (Some 64), CopyConstruct 2 1,
               DefaultConstruct 3, Swap 1 3, Release 2];
       w = run cmds init_world;
       s = \<lparr>m_ctrl = 64\<rparr>
   in sbufs w 2 = Some s \<and> sbufs w 1 = Some shared_buffer_default \<and> shared_bool s
      \<and> ctrls w 64 = Some \<lparr>cb_ref = 2, cb_ptr = 4096, cb_size = 5,
                             cb_deleter = Some (UserDeleter 1), cb_location = Host\<rparr>
      \<and> shared_empty s w = Some False \<and> shared_data s w = Some 4096 \<and> use_count s w = Some 2"
  using shared_handle_observers_agree
          [where cmds = "[Construct 1 4096 5 (Some (UserDeleter 1)) Host (Some 64),
                          CopyConstruct 2 1, DefaultConstruct 3, Swap 1 3, Release 2]"
             and h = 2 and s = "\<lparr>m_ctrl = 64\<rparr>"]
  by (simp add: Let_def init_world_def fresh_slot_def new_ok_def max_handles_def place_def
      shared_buffer_ctor_def shared_copy_ctor_def fetch_add_def size_t_mod_def
      shared_buffer_default_def shared_swap_def shared_release_def compare_exchange_strong_def
      shared_bool_def shared_empty_def shared_size_def shared_data_def use_count_def)

section \<open>The view invariant\<close>







end
